theory Spec2Isabelle
  imports Main "HOL-Library.Word"
begin

section \<open>icequery: the stats-record parser\<close>

text \<open>
  The development follows the revision of \<^verbatim>\<open>icequery.cpp\<close> with version number
  20140510. \<^verbatim>\<open>NodeInfo\<close> is the same in every revision; the polling loop of revision
  20140705 and the single poll of an earlier revision are modelled beside the loop of
  revision 20140510. A \<^verbatim>\<open>std::string\<close> is a list of bytes, \<^verbatim>\<open>uint32_t\<close> is a 32-bit
  word, \<^verbatim>\<open>std::string::npos\<close> is \<open>None\<close>, and a C++ exception is the left summand
  of the result.
\<close>

subsection \<open>Library functions used by the parser\<close>

type_synonym uint32 = "32 word"

text \<open>The exceptions \<^verbatim>\<open>std::stoi\<close> throws. Nothing in the program catches them.\<close>

datatype exn = InvalidArgument | OutOfRange

text \<open>\<^verbatim>\<open>tolower\<close> in the C locale (the program never calls \<^verbatim>\<open>setlocale\<close>).\<close>

definition tolower :: "char \<Rightarrow> char" where
  "tolower c =
     (let n = (of_char c :: nat)
      in if 65 \<le> n \<and> n \<le> 90 then char_of (n + 32) else c)"

definition toLower :: "string \<Rightarrow> string" where
  "toLower str = map tolower str"

text \<open>\<^verbatim>\<open>std::string::find( ch, pos )\<close>: the first index at or after \<open>pos\<close> holding \<open>ch\<close>.\<close>

definition str_find :: "string \<Rightarrow> char \<Rightarrow> nat \<Rightarrow> nat option" where
  "str_find s ch pos =
     (if ch \<in> set (drop pos s)
      then Some (pos + length (takeWhile (\<lambda>x. x \<noteq> ch) (drop pos s)))
      else None)"

text \<open>
  \<^verbatim>\<open>std::string::substr( pos, count )\<close> for \<open>pos \<le> size\<close>, which is all the parser
  asks for; \<open>None\<close> as the count is \<^verbatim>\<open>npos\<close>.
\<close>

definition substr :: "string \<Rightarrow> nat \<Rightarrow> nat option \<Rightarrow> string" where
  "substr s pos count =
     (case count of None \<Rightarrow> drop pos s | Some n \<Rightarrow> take n (drop pos s))"

text \<open>
  \<^verbatim>\<open>std::stoi( str )\<close>, which is \<^verbatim>\<open>strtol\<close> in base 10: leading white space is
  skipped, one sign is accepted, the longest run of digits is converted and the rest
  of the string is ignored. No digit at all throws \<^verbatim>\<open>std::invalid_argument\<close>, a value
  that does not fit an \<^verbatim>\<open>int\<close> throws \<^verbatim>\<open>std::out_of_range\<close>.
\<close>

definition isspace :: "char \<Rightarrow> bool" where
  "isspace c = (let n = (of_char c :: nat) in n = 32 \<or> (9 \<le> n \<and> n \<le> 13))"

definition isdigit :: "char \<Rightarrow> bool" where
  "isdigit c = (let n = (of_char c :: nat) in 48 \<le> n \<and> n \<le> 57)"

definition digit_val :: "char \<Rightarrow> int" where
  "digit_val c = int (of_char c) - 48"

definition digits_val :: "string \<Rightarrow> int" where
  "digits_val ds = foldl (\<lambda>acc d. 10 * acc + digit_val d) 0 ds"

definition stoi :: "string \<Rightarrow> exn + int" where
  "stoi str =
     (let s1 = dropWhile isspace str;
          neg = (case s1 of [] \<Rightarrow> False | c # _ \<Rightarrow> c = CHR ''-'');
          s2 = (case s1 of [] \<Rightarrow> []
                | c # cs \<Rightarrow> if c = CHR ''-'' \<or> c = CHR ''+'' then cs else s1);
          ds = takeWhile isdigit s2;
          v = (if neg then - digits_val ds else digits_val ds)
      in if ds = [] then Inl InvalidArgument
         else if v < - (2 ^ 31) \<or> 2 ^ 31 - 1 < v then Inl OutOfRange
         else Inr v)"

subsection \<open>NodeInfo\<close>

record NodeInfo =
  m_hostId :: uint32
  m_name :: string
  m_ip :: string
  m_maxJobs :: uint32
  m_noRemote :: bool
  m_offline :: bool
  m_platform :: string

text \<open>The private constructor \<^verbatim>\<open>NodeInfo( hostId )\<close> with the default member values.\<close>

definition NodeInfo_new :: "uint32 \<Rightarrow> NodeInfo" where
  "NodeInfo_new hostId =
     \<lparr>m_hostId = hostId, m_name = [], m_ip = [], m_maxJobs = 0,
      m_noRemote = False, m_offline = False, m_platform = []\<rparr>"

definition isValid :: "NodeInfo \<Rightarrow> bool" where
  "isValid n \<longleftrightarrow>
     m_hostId n \<noteq> 0 \<and> m_name n \<noteq> [] \<and> m_ip n \<noteq> [] \<and> m_maxJobs n \<noteq> 0 \<and> m_platform n \<noteq> []"

text \<open>
  The chain of comparisons in the body of the scan loop: one recognised key is
  assigned, any other key leaves the record as it is. The \<^verbatim>\<open>int\<close> that \<^verbatim>\<open>std::stoi\<close>
  returns is converted to \<^verbatim>\<open>uint32_t\<close> by the assignment.
\<close>

definition assign :: "string \<Rightarrow> string \<Rightarrow> NodeInfo \<Rightarrow> exn + NodeInfo" where
  "assign name val res =
     (if name = ''name'' then Inr (res\<lparr>m_name := val\<rparr>)
      else if name = ''ip'' then Inr (res\<lparr>m_ip := val\<rparr>)
      else if name = ''maxjobs'' then
        (case stoi val of Inl e \<Rightarrow> Inl e | Inr v \<Rightarrow> Inr (res\<lparr>m_maxJobs := word_of_int v\<rparr>))
      else if name = ''noremote'' then Inr (res\<lparr>m_noRemote := (toLower val = ''true'')\<rparr>)
      else if name = ''state'' then Inr (res\<lparr>m_offline := (toLower val = ''offline'')\<rparr>)
      else if name = ''platform'' then Inr (res\<lparr>m_platform := val\<rparr>)
      else Inr res)"

text \<open>
  The \<^verbatim>\<open>while( true )\<close> loop of \<^verbatim>\<open>NodeInfo::create\<close>, from the line starting at
  \<open>linePos\<close> on.
\<close>

function scan :: "string \<Rightarrow> nat \<Rightarrow> NodeInfo \<Rightarrow> exn + NodeInfo" where
  "scan stats linePos res =
     (let nextLinePos = str_find stats (CHR 0x0A) linePos;
          colonPos = str_find stats (CHR '':'') linePos;
          step =
            (case colonPos of
               None \<Rightarrow> Inr res
             | Some cp \<Rightarrow>
                 if \<not> (case nextLinePos of None \<Rightarrow> False | Some nl \<Rightarrow> nl < cp)
                 then assign (toLower (substr stats linePos (Some (cp - linePos))))
                        (substr stats (cp + 1)
                           (case nextLinePos of None \<Rightarrow> None | Some nl \<Rightarrow> Some (nl - (cp + 1))))
                        res
                 else Inr res)
      in case step of
           Inl e \<Rightarrow> Inl e
         | Inr res' \<Rightarrow>
             (case nextLinePos of
                None \<Rightarrow> Inr res'
              | Some nl \<Rightarrow>
                  if length stats < nl + 1 then Inr res' else scan stats (nl + 1) res'))"
  by pat_completeness auto
termination
  by (relation "measure (\<lambda>(stats, linePos, res). length stats + 1 - linePos)")
     (auto simp: str_find_def split: if_splits)

text \<open>
  \<^verbatim>\<open>NodeInfo::create\<close>: \<open>Inr None\<close> is the empty \<^verbatim>\<open>unique_ptr\<close>, \<open>Inl e\<close> an exception
  leaving the function.
\<close>

definition create :: "uint32 \<Rightarrow> string \<Rightarrow> exn + NodeInfo option" where
  "create hostId stats =
     (if hostId = 0 then Inr None
      else case scan stats 0 (NodeInfo_new hostId) of
             Inl e \<Rightarrow> Inl e
           | Inr res \<Rightarrow> if \<not> isValid res then Inr None else Inr (Some res))"

subsection \<open>The blob as a list of fields\<close>

text \<open>
  The reading of a blob that the specification gives: the blob is cut at every
  newline, and a line with a colon is the field whose key is the text before the first
  colon, in lower case, and whose value is the rest of the line. The scan loop is
  compared with this reading below.
\<close>

function spec_lines :: "string \<Rightarrow> string list" where
  "spec_lines s =
     (if CHR 0x0A \<in> set s
      then takeWhile (\<lambda>x. x \<noteq> CHR 0x0A) s # spec_lines (tl (dropWhile (\<lambda>x. x \<noteq> CHR 0x0A) s))
      else [s])"
  by pat_completeness auto
termination
proof (relation "measure length", goal_cases)
  case 1
  show ?case by simp
next
  case (2 s)
  then have "dropWhile (\<lambda>x. x \<noteq> CHR 0x0A) s \<noteq> []" by simp
  then have "length (tl (dropWhile (\<lambda>x. x \<noteq> CHR 0x0A) s)) < length (dropWhile (\<lambda>x. x \<noteq> CHR 0x0A) s)"
    by simp
  also have "\<dots> \<le> length s" by (rule length_dropWhile_le)
  finally show ?case by simp
qed

definition spec_field :: "string \<Rightarrow> (string \<times> string) option" where
  "spec_field line =
     (if CHR '':'' \<in> set line
      then Some (toLower (takeWhile (\<lambda>x. x \<noteq> CHR '':'') line),
                 tl (dropWhile (\<lambda>x. x \<noteq> CHR '':'') line))
      else None)"

definition spec_fields :: "string \<Rightarrow> (string \<times> string) list" where
  "spec_fields stats = List.map_filter spec_field (spec_lines stats)"

text \<open>The fields are assigned from first to last; an exception ends the fold.\<close>

fun assign_all :: "(string \<times> string) list \<Rightarrow> NodeInfo \<Rightarrow> exn + NodeInfo" where
  "assign_all [] res = Inr res"
| "assign_all ((k, v) # kvs) res =
     (case assign k v res of Inl e \<Rightarrow> Inl e | Inr res' \<Rightarrow> assign_all kvs res')"

text \<open>The value of the last field with a given key, if there is one.\<close>

definition last_value :: "string \<Rightarrow> (string \<times> string) list \<Rightarrow> string option" where
  "last_value key kvs =
     (let vs = map snd (filter (\<lambda>kv. fst kv = key) kvs)
      in if vs = [] then None else Some (last vs))"

text \<open>A required text field is missing when no line gives it, or the last one gives nothing.\<close>

definition field_missing :: "string \<Rightarrow> (string \<times> string) list \<Rightarrow> bool" where
  "field_missing key kvs \<longleftrightarrow> last_value key kvs = None \<or> last_value key kvs = Some []"

text \<open>The effect of one line on the record.\<close>

definition line_step :: "string \<Rightarrow> NodeInfo \<Rightarrow> exn + NodeInfo" where
  "line_step line res = (case spec_field line of None \<Rightarrow> Inr res | Some (k, v) \<Rightarrow> assign k v res)"

section \<open>The table renderer\<close>

datatype Alignment = Left | Right | Center

record ColumnHeader =
  m_alignment :: Alignment
  m_treatAsUnicode :: bool
  m_name_hdr :: string

text \<open>
  The ICU library is outside the repository: \<^verbatim>\<open>icu::UnicodeString\<close> is the type
  parameter \<open>'u\<close> and the calls the renderer makes are the fields of a record.
  \<open>trans_ok\<close> says that \<^verbatim>\<open>Transliterator::createInstance\<close> succeeded.
\<close>

record 'u icu =
  trans_ok :: bool
  u_fromStr :: "string \<Rightarrow> 'u"
  u_transliterate :: "'u \<Rightarrow> 'u"
  u_extract :: "'u \<Rightarrow> string"
  u_length :: "'u \<Rightarrow> nat"

text \<open>\<^verbatim>\<open>std::string::c_str\<close> read as a C string: the bytes before the first NUL.\<close>

definition c_str :: "string \<Rightarrow> string" where
  "c_str s = takeWhile (\<lambda>c. c \<noteq> CHR 0x00) s"

definition VERT_LINE_LO :: string where "VERT_LINE_LO = ''|''"
definition CROSS_LO :: string where "CROSS_LO = ''+''"
definition HOR_LINE_LO :: string where "HOR_LINE_LO = ''-''"
definition TICK_LO :: string where "TICK_LO = ''X''"
definition NO_TICK_LO :: string where "NO_TICK_LO = []"
definition VERT_LINE_HI :: string where "VERT_LINE_HI = [CHR 0xE2, CHR 0x94, CHR 0x82]"
definition CROSS_HI :: string where "CROSS_HI = [CHR 0xE2, CHR 0x94, CHR 0xBC]"
definition HOR_LINE_HI :: string where "HOR_LINE_HI = [CHR 0xE2, CHR 0x94, CHR 0x80]"
definition TICK_HI :: string where "TICK_HI = [CHR 0xE2, CHR 0x88, CHR 0x9A]"
definition NO_TICK_HI :: string where "NO_TICK_HI = []"

text \<open>
  First pass of \<^verbatim>\<open>renderTable\<close>, the body of the loop for column \<open>c\<close> and row \<open>r\<close>
  (row 0 is the header): the text stored in \<^verbatim>\<open>data\<close> and the length stored in
  \<^verbatim>\<open>lens\<close>, margin included. \<open>has_trans\<close> says that the transliterator pointer is set.
\<close>

definition origStr :: "ColumnHeader list \<Rightarrow> string list \<Rightarrow> nat \<Rightarrow> nat \<Rightarrow> string" where
  "origStr header strings c r =
     (if r = 0 then m_name_hdr (header ! c) else strings ! (length header * (r - 1) + c))"

definition measure_cell ::
  "'u icu \<Rightarrow> ColumnHeader list \<Rightarrow> string list \<Rightarrow> bool \<Rightarrow> bool \<Rightarrow> nat \<Rightarrow> nat \<Rightarrow> string \<times> nat"
where
  "measure_cell lib header strings plain has_trans c r =
     (let orig = origStr header strings c r;
          (res, len) =
            (if m_treatAsUnicode (header ! c) then
               (let uniStr = u_fromStr lib (c_str orig)
                in if has_trans
                   then (c_str (u_extract lib (u_transliterate lib uniStr)),
                         u_length lib (u_transliterate lib uniStr))
                   else (orig, u_length lib uniStr))
             else (orig, length orig))
      in if \<not> plain then
           (if c = 0 then (CHR '' '' # res, len + 1)
            else if c = length header - 1 then (res @ '' '', len + 1)
            else (res, len))
         else (res, len))"

text \<open>
  \<^verbatim>\<open>colMaxLens[c]\<close> after the first pass: the running maximum over the rows
  \<open>0 .. rowCount\<close>, from the initial 0.
\<close>

definition colMaxLen ::
  "'u icu \<Rightarrow> ColumnHeader list \<Rightarrow> string list \<Rightarrow> bool \<Rightarrow> bool \<Rightarrow> nat \<Rightarrow> nat \<Rightarrow> nat"
where
  "colMaxLen lib header strings plain has_trans rowCount c =
     foldl (\<lambda>maxLen r. max maxLen (snd (measure_cell lib header strings plain has_trans c r)))
       0 [0..<rowCount + 1]"

text \<open>Second pass: the padding of one cell to the width of its column.\<close>

definition pad :: "Alignment \<Rightarrow> nat \<Rightarrow> string \<times> nat \<Rightarrow> string" where
  "pad align maxLen cell =
     (let (str, len) = cell
      in if len < maxLen then
           (let lenDiff = maxLen - len
            in case align of
                 Left \<Rightarrow> str @ replicate lenDiff (CHR '' '')
               | Right \<Rightarrow> replicate lenDiff (CHR '' '') @ str
               | Center \<Rightarrow>
                   replicate (lenDiff div 2) (CHR '' '') @ str
                     @ replicate (lenDiff - lenDiff div 2) (CHR '' ''))
         else str)"

definition padded_cell ::
  "'u icu \<Rightarrow> ColumnHeader list \<Rightarrow> string list \<Rightarrow> bool \<Rightarrow> bool \<Rightarrow> nat \<Rightarrow> nat \<Rightarrow> nat \<Rightarrow> string"
where
  "padded_cell lib header strings plain has_trans rowCount c r =
     pad (m_alignment (header ! c))
       (colMaxLen lib header strings plain has_trans rowCount c)
       (measure_cell lib header strings plain has_trans c r)"

text \<open>
  Third pass. What is appended to \<^verbatim>\<open>table\<close> is kept apart by kind, so that the
  column separators of a line can be counted whatever the cells contain.
\<close>

datatype piece = Cell string | Border string | HorLine string | Cross string | Newline

fun piece_text :: "piece \<Rightarrow> string" where
  "piece_text (Cell s) = s"
| "piece_text (Border s) = s"
| "piece_text (HorLine s) = s"
| "piece_text (Cross s) = s"
| "piece_text Newline = [CHR 0x0A]"

definition border :: "bool \<Rightarrow> bool \<Rightarrow> string" where
  "border plain ascii =
     (if plain then '' ''
      else if ascii then '' '' @ VERT_LINE_LO @ '' '' else '' '' @ VERT_LINE_HI @ '' '')"

definition row_pieces ::
  "'u icu \<Rightarrow> ColumnHeader list \<Rightarrow> string list \<Rightarrow> bool \<Rightarrow> bool \<Rightarrow> bool \<Rightarrow> nat \<Rightarrow> nat \<Rightarrow> piece list"
where
  "row_pieces lib header strings plain ascii has_trans rowCount r =
     concat (map (\<lambda>c. (if 0 < c then [Border (border plain ascii)] else [])
                       @ [Cell (padded_cell lib header strings plain has_trans rowCount c r)])
               [0..<length header])
     @ [Newline]"

definition hline_pieces ::
  "'u icu \<Rightarrow> ColumnHeader list \<Rightarrow> string list \<Rightarrow> bool \<Rightarrow> bool \<Rightarrow> bool \<Rightarrow> nat \<Rightarrow> piece list"
where
  "hline_pieces lib header strings plain ascii has_trans rowCount =
     concat (map (\<lambda>c. (if 0 < c
                        then [Cross (if ascii then HOR_LINE_LO @ CROSS_LO @ HOR_LINE_LO
                                     else HOR_LINE_HI @ CROSS_HI @ HOR_LINE_HI)]
                        else [])
                       @ replicate (colMaxLen lib header strings plain has_trans rowCount c)
                           (HorLine (if ascii then HOR_LINE_LO else HOR_LINE_HI)))
               [0..<length header])
     @ [Newline]"

definition table_pieces ::
  "'u icu \<Rightarrow> ColumnHeader list \<Rightarrow> string list \<Rightarrow> bool \<Rightarrow> bool \<Rightarrow> bool \<Rightarrow> nat \<Rightarrow> piece list"
where
  "table_pieces lib header strings plain ascii has_trans rowCount =
     concat (map (\<lambda>r. row_pieces lib header strings plain ascii has_trans rowCount r
                       @ (if r = 0 \<and> \<not> plain
                          then hline_pieces lib header strings plain ascii has_trans rowCount
                          else []))
               [0..<rowCount + 1])"

text \<open>
  \<^verbatim>\<open>renderTable\<close>. With no column the division \<^verbatim>\<open>strings.size() / columnCount\<close> is
  undefined and no table comes back: \<open>None\<close>.
\<close>

definition renderTable ::
  "'u icu \<Rightarrow> ColumnHeader list \<Rightarrow> string list \<Rightarrow> bool \<Rightarrow> bool \<Rightarrow> string option"
where
  "renderTable lib header strings plain ascii =
     (let columnCount = length header
      in if columnCount = 0 then None
         else
           (let rowCount = length strings div columnCount;
                has_trans = (ascii \<and> trans_ok lib)
            in Some (concat (map piece_text
                 (table_pieces lib header strings plain ascii has_trans rowCount)))))"

text \<open>
  The early revision that polls once has a \<^verbatim>\<open>renderTable\<close> whose header is a list of
  pairs and which sends every cell through \<^verbatim>\<open>UnicodeString\<close>, as the one above does in
  the columns treated as Unicode; the rest of the function is the same.
\<close>

definition renderTable_one_poll ::
  "'u icu \<Rightarrow> (Alignment \<times> string) list \<Rightarrow> string list \<Rightarrow> bool \<Rightarrow> bool \<Rightarrow> string option"
where
  "renderTable_one_poll lib header strings plain useLowAscii =
     renderTable lib
       (map (\<lambda>(al, title). \<lparr>m_alignment = al, m_treatAsUnicode = True, m_name_hdr = title\<rparr>)
          header)
       strings plain useLowAscii"

subsection \<open>Widths, margins and padding as the specification words them\<close>

text \<open>The text and the width stored for a cell in the first pass.\<close>

definition cell_text ::
  "'u icu \<Rightarrow> ColumnHeader list \<Rightarrow> string list \<Rightarrow> bool \<Rightarrow> bool \<Rightarrow> nat \<Rightarrow> nat \<Rightarrow> string"
where
  "cell_text lib header strings plain has_trans c r =
     fst (measure_cell lib header strings plain has_trans c r)"

definition cell_width ::
  "'u icu \<Rightarrow> ColumnHeader list \<Rightarrow> string list \<Rightarrow> bool \<Rightarrow> bool \<Rightarrow> nat \<Rightarrow> nat \<Rightarrow> nat"
where
  "cell_width lib header strings plain has_trans c r =
     snd (measure_cell lib header strings plain has_trans c r)"

text \<open>
  The margin: unless the table is plain, one space before the text in the first column
  and one after it in the last column.
\<close>

definition with_margin :: "bool \<Rightarrow> nat \<Rightarrow> nat \<Rightarrow> string \<Rightarrow> string" where
  "with_margin plain columnCount c s =
     (if plain then s
      else if c = 0 then CHR '' '' # s
      else if c = columnCount - 1 then s @ '' ''
      else s)"

definition margin_width :: "bool \<Rightarrow> nat \<Rightarrow> nat \<Rightarrow> nat" where
  "margin_width plain columnCount c =
     (if plain then 0 else if c = 0 \<or> c = columnCount - 1 then 1 else 0)"

text \<open>
  The spaces before and after the text for a deficit \<open>d\<close>: all after it when the column
  is aligned left, all before it when aligned right, and split with the odd one after
  the text when centred.
\<close>

fun spec_padding :: "Alignment \<Rightarrow> nat \<Rightarrow> nat \<times> nat" where
  "spec_padding Left d = (0, d)"
| "spec_padding Right d = (d, 0)"
| "spec_padding Center d = (d div 2, d - d div 2)"

text \<open>
  The display width of a text in UTF-8, counted in code points: every byte that is not
  a continuation byte starts one.
\<close>

definition utf8_continuation :: "char \<Rightarrow> bool" where
  "utf8_continuation b = (let n = (of_char b :: nat) in 128 \<le> n \<and> n < 192)"

definition spec_display_width :: "string \<Rightarrow> nat" where
  "spec_display_width s = length (filter (\<lambda>b. \<not> utf8_continuation b) s)"

text \<open>Texts joined by a separator.\<close>

fun join :: "'a list \<Rightarrow> 'a list list \<Rightarrow> 'a list" where
  "join sep [] = []"
| "join sep [x] = x"
| "join sep (x # y # ys) = x @ sep @ join sep (y # ys)"

section \<open>The entry point, from the first \<^verbatim>\<open>poll\<close> on\<close>

subsection \<open>The scheduler as seen by the program\<close>

text \<open>
  A message of the channel: \<^verbatim>\<open>M_MON_STATS\<close> with its \<^verbatim>\<open>hostid\<close> and \<^verbatim>\<open>statmsg\<close>,
  \<^verbatim>\<open>M_END\<close>, or any other type.
\<close>

datatype Msg = M_MON_STATS uint32 string | M_END | M_OTHER

text \<open>
  One call of \<^verbatim>\<open>poll\<close>: a failure (\<open>pollRes < 0\<close>), a timeout (\<open>pollRes = 0\<close>), or
  readiness (\<open>pollRes > 0\<close>) together with what \<^verbatim>\<open>get_msg\<close> returns, call after call,
  as long as \<^verbatim>\<open>!read_a_bit() || has_msg()\<close> holds; \<open>None\<close> is the null pointer.
\<close>

datatype PollEvent = PollFailed | PollTimedOut | PollReady "Msg option list"

definition EXIT_OK :: nat where "EXIT_OK = 0"
definition EXIT_INVALID_ARGS :: nat where "EXIT_INVALID_ARGS = 1"
definition EXIT_CONNECTION_ERR :: nat where "EXIT_CONNECTION_ERR = 2"
definition EXIT_NO_DATA :: nat where "EXIT_NO_DATA = 3"
definition USELESS_POLLS_IN_A_ROW_MAX :: nat where "USELESS_POLLS_IN_A_ROW_MAX = 3"

text \<open>
  How the process ends: \<^verbatim>\<open>main\<close> returns an exit code, having written some text to the
  standard output, or an exception that nothing catches ends it.
\<close>

datatype Outcome = Exit nat string | Uncaught exn

record Flags =
  brief :: bool
  noTable :: bool
  plain :: bool
  ascii :: bool
  noOffline :: bool
  noNoRemote :: bool

subsection \<open>Ingestion\<close>

record Ingest =
  nodes :: "NodeInfo list"
  hostIdMax :: uint32

text \<open>
  The body of the inner \<^verbatim>\<open>while\<close> loop for one message that \<^verbatim>\<open>get_msg\<close> returned. The
  result is the new state with \<^verbatim>\<open>isMsgUseful\<close>, or the way the process ends here.
\<close>

definition handle_msg :: "Ingest \<Rightarrow> Msg \<Rightarrow> Outcome + Ingest \<times> bool" where
  "handle_msg st msg =
     (case msg of
        M_MON_STATS hostid statmsg \<Rightarrow>
          (case create hostid statmsg of
             Inl e \<Rightarrow> Inl (Uncaught e)
           | Inr nodeInfo \<Rightarrow>
               (case nodeInfo of
                  None \<Rightarrow> Inr (st, False)
                | Some n \<Rightarrow>
                    if hostIdMax st < m_hostId n
                    then Inr (st\<lparr>hostIdMax := m_hostId n, nodes := nodes st @ [n]\<rparr>, True)
                    else Inr (st, False)))
      | M_END \<Rightarrow> Inl (Exit EXIT_CONNECTION_ERR [])
      | M_OTHER \<Rightarrow> Inr (st, False))"

text \<open>The inner loop over the messages of one poll; \<open>useful\<close> is \<^verbatim>\<open>wasPollUseful\<close>.\<close>

fun drain :: "Ingest \<Rightarrow> bool \<Rightarrow> Msg option list \<Rightarrow> Outcome + Ingest \<times> bool" where
  "drain st useful [] = Inr (st, useful)"
| "drain st useful (None # ms) = Inl (Exit EXIT_CONNECTION_ERR [])"
| "drain st useful (Some msg # ms) =
     (case handle_msg st msg of
        Inl out \<Rightarrow> Inl out
      | Inr (st', isMsgUseful) \<Rightarrow> drain st' (useful \<or> isMsgUseful) ms)"

text \<open>
  The outer \<^verbatim>\<open>do ... while\<close> loop (revision 20140510). The events are the calls of
  \<^verbatim>\<open>poll\<close> in order; when they are used up nothing arrives any more and \<^verbatim>\<open>poll\<close>
  times out.
\<close>

fun poll_loop :: "Ingest \<Rightarrow> nat \<Rightarrow> PollEvent list \<Rightarrow> Outcome + Ingest" where
  "poll_loop st uselessPollsInARow [] = Inr st"
| "poll_loop st uselessPollsInARow (PollFailed # evs) = Inl (Exit EXIT_CONNECTION_ERR [])"
| "poll_loop st uselessPollsInARow (PollTimedOut # evs) = Inr st"
| "poll_loop st uselessPollsInARow (PollReady ms # evs) =
     (case drain st False ms of
        Inl out \<Rightarrow> Inl out
      | Inr (st', wasPollUseful) \<Rightarrow>
          (let u = (if \<not> wasPollUseful then uselessPollsInARow + 1 else 0)
           in if u < USELESS_POLLS_IN_A_ROW_MAX then poll_loop st' u evs else Inr st'))"

text \<open>
  The same loop in revision 20140705, which goes on while the last poll was useful:
  \<^verbatim>\<open>while( pollRes != 0 && wasPollUseful )\<close>.
\<close>

fun poll_loop_0705 :: "Ingest \<Rightarrow> PollEvent list \<Rightarrow> Outcome + Ingest" where
  "poll_loop_0705 st [] = Inr st"
| "poll_loop_0705 st (PollFailed # evs) = Inl (Exit EXIT_CONNECTION_ERR [])"
| "poll_loop_0705 st (PollTimedOut # evs) = Inr st"
| "poll_loop_0705 st (PollReady ms # evs) =
     (case drain st False ms of
        Inl out \<Rightarrow> Inl out
      | Inr (st', wasPollUseful) \<Rightarrow>
          if wasPollUseful then poll_loop_0705 st' evs else Inr st')"

definition ingest_init :: Ingest where
  "ingest_init = \<lparr>nodes = [], hostIdMax = 0\<rparr>"

subsection \<open>The summary\<close>

text \<open>\<^verbatim>\<open>std::to_string\<close> of an unsigned number: its decimal digits.\<close>

fun to_string :: "nat \<Rightarrow> string" where
  "to_string n =
     (if n < 10 then [char_of (48 + n)]
      else to_string (n div 10) @ [char_of (48 + n mod 10)])"

definition header7 :: "ColumnHeader list" where
  "header7 =
     [\<lparr>m_alignment = Right,  m_treatAsUnicode = False, m_name_hdr = ''Node #''\<rparr>,
      \<lparr>m_alignment = Center, m_treatAsUnicode = True,  m_name_hdr = ''Offline?''\<rparr>,
      \<lparr>m_alignment = Center, m_treatAsUnicode = True,  m_name_hdr = ''No remote?''\<rparr>,
      \<lparr>m_alignment = Left,   m_treatAsUnicode = True,  m_name_hdr = ''Name''\<rparr>,
      \<lparr>m_alignment = Left,   m_treatAsUnicode = False, m_name_hdr = ''IP''\<rparr>,
      \<lparr>m_alignment = Right,  m_treatAsUnicode = False, m_name_hdr = ''Cores''\<rparr>,
      \<lparr>m_alignment = Left,   m_treatAsUnicode = False, m_name_hdr = ''Platform''\<rparr>]"

text \<open>The predicate of \<^verbatim>\<open>std::all_of\<close>: the node is hidden by the filters.\<close>

definition filtered_out :: "Flags \<Rightarrow> NodeInfo \<Rightarrow> bool" where
  "filtered_out fl node \<longleftrightarrow>
     (noOffline fl \<and> m_offline node) \<or> (noNoRemote fl \<and> m_noRemote node)"

text \<open>The predicate of \<^verbatim>\<open>std::count_if\<close> and of the loop that fills \<^verbatim>\<open>strings\<close>.\<close>

definition shown :: "Flags \<Rightarrow> NodeInfo \<Rightarrow> bool" where
  "shown fl node \<longleftrightarrow>
     (\<not> noOffline fl \<or> \<not> m_offline node) \<and> (\<not> noNoRemote fl \<or> \<not> m_noRemote node)"

text \<open>The \<^verbatim>\<open>std::accumulate\<close> of \<^verbatim>\<open>coreCount\<close>, in \<^verbatim>\<open>uint32_t\<close> arithmetic.\<close>

definition coreCount :: "NodeInfo list \<Rightarrow> uint32" where
  "coreCount ns =
     foldl (\<lambda>count node.
              if \<not> m_noRemote node \<and> \<not> m_offline node then count + m_maxJobs node else count)
       0 ns"

definition nodeCount :: "Flags \<Rightarrow> NodeInfo list \<Rightarrow> uint32" where
  "nodeCount fl ns = of_nat (length (filter (shown fl) ns))"

text \<open>The seven strings that one node adds to \<^verbatim>\<open>strings\<close>.\<close>

definition node_strings :: "Flags \<Rightarrow> NodeInfo \<Rightarrow> string list" where
  "node_strings fl node =
     [to_string (unat (m_hostId node)),
      (if m_offline node then (if ascii fl then TICK_LO else TICK_HI)
       else (if ascii fl then NO_TICK_LO else NO_TICK_HI)),
      (if m_noRemote node then (if ascii fl then TICK_LO else TICK_HI)
       else (if ascii fl then NO_TICK_LO else NO_TICK_HI)),
      m_name node,
      m_ip node,
      to_string (unat (m_maxJobs node)),
      m_platform node]"

definition table_strings :: "Flags \<Rightarrow> NodeInfo list \<Rightarrow> string list" where
  "table_strings fl ns = concat (map (node_strings fl) (filter (shown fl) ns))"

definition summary_line :: "uint32 \<Rightarrow> uint32 \<Rightarrow> string" where
  "summary_line nc cc =
     to_string (unat nc) @ '' node'' @ (if nc = 1 then [] else ''s'') @ '', ''
       @ to_string (unat cc) @ '' core'' @ (if cc = 1 then [] else ''s'') @ '' total.''
       @ [CHR 0x0A]"

text \<open>
  What \<^verbatim>\<open>main\<close> does with the nodes once the loop is left. The table is written
  through \<^verbatim>\<open>printf( "\n%s\n", ... )\<close>, the header has seven columns.
\<close>

definition report :: "'u icu \<Rightarrow> Flags \<Rightarrow> NodeInfo list \<Rightarrow> Outcome" where
  "report lib fl ns =
     (if ns = [] \<or> list_all (filtered_out fl) ns then Exit EXIT_NO_DATA []
      else if brief fl then Exit EXIT_OK (to_string (unat (coreCount ns)) @ [CHR 0x0A])
      else Exit EXIT_OK
        ((if \<not> noTable fl
          then [CHR 0x0A]
               @ c_str (the (renderTable lib header7 (table_strings fl ns) (plain fl) (ascii fl)))
               @ [CHR 0x0A]
          else [])
         @ summary_line (nodeCount fl ns) (coreCount ns)))"

text \<open>
  \<^verbatim>\<open>main\<close> from the top of the \<^verbatim>\<open>do ... while\<close> loop to its end, for the values that
  \<^verbatim>\<open>nodes\<close>, \<^verbatim>\<open>hostIdMax\<close> and \<^verbatim>\<open>uselessPollsInARow\<close> have there.
\<close>

definition main_from :: "'u icu \<Rightarrow> Flags \<Rightarrow> Ingest \<Rightarrow> nat \<Rightarrow> PollEvent list \<Rightarrow> Outcome" where
  "main_from lib fl st uselessPollsInARow evs =
     (case poll_loop st uselessPollsInARow evs of
        Inl out \<Rightarrow> out
      | Inr st' \<Rightarrow> report lib fl (nodes st'))"

text \<open>\<^verbatim>\<open>main\<close> from the declaration of \<^verbatim>\<open>pollData\<close> to its end.\<close>

definition main_polling :: "'u icu \<Rightarrow> Flags \<Rightarrow> PollEvent list \<Rightarrow> Outcome" where
  "main_polling lib fl evs = main_from lib fl ingest_init 0 evs"

subsection \<open>The early revision that polls once\<close>

text \<open>
  Before the polling loop and the exit codes were introduced, \<^verbatim>\<open>main\<close> called \<^verbatim>\<open>poll\<close>
  once and returned 1 on every failure. \<^verbatim>\<open>NodeInfo\<close> is the same. The globals of that
  revision are read from the record of flags: \<^verbatim>\<open>lowAscii\<close> is \<open>ascii\<close>,
  \<^verbatim>\<open>filterOffline\<close> is \<open>noOffline\<close> and \<^verbatim>\<open>filterNoRemote\<close> is \<open>noNoRemote\<close>. Nothing
  assigns them; their initial values are \<open>globals_one_poll\<close>.
\<close>

definition globals_one_poll :: Flags where
  "globals_one_poll =
     \<lparr>brief = True, noTable = True, plain = False, ascii = False,
      noOffline = False, noNoRemote = False\<rparr>"

text \<open>The loop over the messages of the one poll.\<close>

fun drain_one_poll :: "Ingest \<Rightarrow> Msg option list \<Rightarrow> Outcome + Ingest" where
  "drain_one_poll st [] = Inr st"
| "drain_one_poll st (None # ms) = Inl (Exit 1 [])"
| "drain_one_poll st (Some msg # ms) =
     (case msg of
        M_MON_STATS hostid statmsg \<Rightarrow>
          (case create hostid statmsg of
             Inl e \<Rightarrow> Inl (Uncaught e)
           | Inr nodeInfo \<Rightarrow>
               (case nodeInfo of
                  None \<Rightarrow> drain_one_poll st ms
                | Some n \<Rightarrow>
                    if hostIdMax st < m_hostId n
                    then drain_one_poll (st\<lparr>hostIdMax := m_hostId n, nodes := nodes st @ [n]\<rparr>) ms
                    else drain_one_poll st ms))
      | M_END \<Rightarrow> Inl (Exit 1 [])
      | M_OTHER \<Rightarrow> drain_one_poll st ms)"

definition header7_pairs :: "(Alignment \<times> string) list" where
  "header7_pairs =
     [(Right, ''Node #''), (Center, ''Offline?''), (Center, ''No remote?''), (Left, ''Name''),
      (Left, ''IP''), (Right, ''Cores''), (Left, ''Platform'')]"

text \<open>
  The summary of that revision: \<^verbatim>\<open>nodeCount\<close> counts the nodes that are not offline, and
  the last line has no singular.
\<close>

definition report_one_poll :: "'u icu \<Rightarrow> Flags \<Rightarrow> NodeInfo list \<Rightarrow> Outcome" where
  "report_one_poll lib fl ns =
     (if ns = [] \<or> list_all (filtered_out fl) ns then Exit 1 []
      else if brief fl then Exit 0 (to_string (unat (coreCount ns)) @ [CHR 0x0A])
      else Exit 0
        ((if \<not> noTable fl
          then [CHR 0x0A]
               @ c_str (the (renderTable_one_poll lib header7_pairs (table_strings fl ns)
                               (plain fl) (ascii fl)))
               @ [CHR 0x0A]
          else [])
         @ to_string (length (filter (\<lambda>node. \<not> m_offline node) ns) mod 2 ^ 32)
         @ '' nodes, '' @ to_string (unat (coreCount ns)) @ '' cores total.'' @ [CHR 0x0A]))"

text \<open>\<^verbatim>\<open>main\<close> of that revision from its call of \<^verbatim>\<open>poll\<close> to its end.\<close>

definition main_one_poll :: "'u icu \<Rightarrow> Flags \<Rightarrow> PollEvent \<Rightarrow> Outcome" where
  "main_one_poll lib fl ev =
     (case ev of
        PollFailed \<Rightarrow> Exit 1 []
      | PollTimedOut \<Rightarrow> Exit 1 []
      | PollReady ms \<Rightarrow>
          (case drain_one_poll ingest_init ms of
             Inl out \<Rightarrow> out
           | Inr st \<Rightarrow> report_one_poll lib fl (nodes st)))"

subsection \<open>The invariant of the collection\<close>

text \<open>
  The host ids of the collected nodes increase strictly in the order of insertion, and
  \<^verbatim>\<open>hostIdMax\<close> is the host id of the node added last (0 while there is none).
\<close>

definition ingest_inv :: "Ingest \<Rightarrow> bool" where
  "ingest_inv st \<longleftrightarrow>
     sorted_wrt (<) (map m_hostId (nodes st)) \<and>
     hostIdMax st = (if nodes st = [] then 0 else m_hostId (last (nodes st)))"

text \<open>The nodes that the specification counts: neither offline nor closed to remote jobs.\<close>

definition active :: "NodeInfo \<Rightarrow> bool" where
  "active node \<longleftrightarrow> \<not> m_noRemote node \<and> \<not> m_offline node"

text \<open>The cells of the column \<^verbatim>\<open>Node #\<close>, one for each row of the table.\<close>

definition node_number_cells :: "Flags \<Rightarrow> NodeInfo list \<Rightarrow> string list" where
  "node_number_cells fl ns = map (\<lambda>node. hd (node_strings fl node)) (filter (shown fl) ns)"

section \<open>Concrete inputs\<close>

text \<open>Scenario A of the specification: every colon is followed by a space.\<close>

definition scenario_A :: string where
  "scenario_A =
     ''name: alpha'' @ [CHR 0x0A] @ ''ip: 10.0.0.1'' @ [CHR 0x0A]
       @ ''maxjobs: 4'' @ [CHR 0x0A] @ ''platform: x86_64'' @ [CHR 0x0A]"

text \<open>Scenario A in the format the scheduler sends: nothing between colon and value.\<close>

definition scenario_A_no_spaces :: string where
  "scenario_A_no_spaces =
     ''name:alpha'' @ [CHR 0x0A] @ ''ip:10.0.0.1'' @ [CHR 0x0A]
       @ ''maxjobs:4'' @ [CHR 0x0A] @ ''platform:x86_64'' @ [CHR 0x0A]"

text \<open>A blob with every required field, whose \<^verbatim>\<open>maxjobs\<close> value is not a number.\<close>

definition blob_maxjobs_word :: string where
  "blob_maxjobs_word =
     ''name:alpha'' @ [CHR 0x0A] @ ''ip:10.0.0.1'' @ [CHR 0x0A]
       @ ''maxjobs:four'' @ [CHR 0x0A] @ ''platform:x86_64'' @ [CHR 0x0A]"

text \<open>A blob without name, address and platform, whose only line is not a number.\<close>

definition blob_only_maxjobs :: string where
  "blob_only_maxjobs = ''maxjobs:x''"

text \<open>A blob in which \<^verbatim>\<open>name\<close> and \<^verbatim>\<open>maxjobs\<close> occur twice.\<close>

definition blob_two_names :: string where
  "blob_two_names =
     ''Name:alpha'' @ [CHR 0x0A] @ ''IP:10.0.0.1'' @ [CHR 0x0A] @ ''MaxJobs:4'' @ [CHR 0x0A]
       @ ''name:beta'' @ [CHR 0x0A] @ ''Platform:x86_64'' @ [CHR 0x0A] @ ''maxjobs:8''"

text \<open>A well-formed blob, in the format the scheduler sends, and the node it describes.\<close>

definition blob_ok :: string where
  "blob_ok = ''Name:alpha'' @ [CHR 0x0A] @ ''IP:10.0.0.1'' @ [CHR 0x0A] @ ''MaxJobs:4'' @ [CHR 0x0A]
       @ ''Platform:x86_64'' @ [CHR 0x0A]"

definition node_ok :: "uint32 \<Rightarrow> NodeInfo" where
  "node_ok h = \<lparr>m_hostId = h, m_name = ''alpha'', m_ip = ''10.0.0.1'', m_maxJobs = 4,
                m_noRemote = False, m_offline = False, m_platform = ''x86_64''\<rparr>"

text \<open>No option given on the command line.\<close>

definition flags_default :: Flags where
  "flags_default =
     \<lparr>brief = False, noTable = False, plain = False, ascii = False,
      noOffline = False, noNoRemote = False\<rparr>"

text \<open>
  A stand-in for the ICU library: a character is a byte and the transliterator changes
  nothing.
\<close>

definition icu_bytes :: "string icu" where
  "icu_bytes =
     \<lparr>trans_ok = True, u_fromStr = (\<lambda>s. s), u_transliterate = (\<lambda>u. u),
      u_extract = (\<lambda>u. u), u_length = length\<rparr>"

text \<open>One poll that brings the host ids 3, 5 and 4 in this order, then a timeout.\<close>

definition events_3_5_4 :: "PollEvent list" where
  "events_3_5_4 =
     [PollReady [Some (M_MON_STATS 3 blob_ok), Some M_OTHER, Some (M_MON_STATS 5 blob_ok),
                 Some (M_MON_STATS 4 blob_ok)],
      PollTimedOut]"

text \<open>Scenario C of the specification: an offline node with 4 jobs, an online one with 8.\<close>

definition scenario_C :: "NodeInfo list" where
  "scenario_C = [(node_ok 1)\<lparr>m_offline := True\<rparr>, (node_ok 2)\<lparr>m_maxJobs := 8\<rparr>]"

text \<open>A table of three columns and two rows.\<close>

definition header3 :: "ColumnHeader list" where
  "header3 =
     [\<lparr>m_alignment = Right,  m_treatAsUnicode = False, m_name_hdr = ''Node #''\<rparr>,
      \<lparr>m_alignment = Center, m_treatAsUnicode = True,  m_name_hdr = ''Up''\<rparr>,
      \<lparr>m_alignment = Left,   m_treatAsUnicode = False, m_name_hdr = ''IP''\<rparr>]"

definition strings3 :: "string list" where
  "strings3 = [''7'', ''yes'', ''10.0.0.1'', ''12'', ''X'', ''10.0.0.22'']"

text \<open>
  Two well-formed blobs whose \<^verbatim>\<open>maxjobs\<close> values are \<open>-1\<close> and \<open>2\<close>, the nodes they
  describe (\<open>-1\<close> becomes 4294967295 in \<^verbatim>\<open>uint32_t\<close>), and one poll that brings both.
\<close>

definition blob_minus_one :: string where
  "blob_minus_one =
     ''name:a'' @ [CHR 0x0A] @ ''ip:b'' @ [CHR 0x0A] @ ''maxjobs:-1'' @ [CHR 0x0A]
       @ ''platform:c'' @ [CHR 0x0A]"

definition blob_two_jobs :: string where
  "blob_two_jobs =
     ''name:a'' @ [CHR 0x0A] @ ''ip:b'' @ [CHR 0x0A] @ ''maxjobs:2'' @ [CHR 0x0A]
       @ ''platform:c'' @ [CHR 0x0A]"

definition nodes_wrap :: "NodeInfo list" where
  "nodes_wrap =
     [\<lparr>m_hostId = 1, m_name = ''a'', m_ip = ''b'', m_maxJobs = 4294967295,
       m_noRemote = False, m_offline = False, m_platform = ''c''\<rparr>,
      \<lparr>m_hostId = 2, m_name = ''a'', m_ip = ''b'', m_maxJobs = 2,
       m_noRemote = False, m_offline = False, m_platform = ''c''\<rparr>]"

definition events_wrap :: "PollEvent list" where
  "events_wrap =
     [PollReady [Some (M_MON_STATS 1 blob_minus_one), Some (M_MON_STATS 2 blob_two_jobs)],
      PollTimedOut]"

text \<open>
  A table of one column that is not treated as Unicode, and a cell of two bytes that is
  one character: U+00E9 in UTF-8.
\<close>

definition header_platform :: "ColumnHeader list" where
  "header_platform = [\<lparr>m_alignment = Left, m_treatAsUnicode = False, m_name_hdr = ''Platform''\<rparr>]"

definition e_acute :: string where
  "e_acute = [CHR 0xC3, CHR 0xA9]"

section \<open>Properties of the parser\<close>

declare spec_lines.simps [simp del]
declare scan.simps [simp del]

subsection \<open>The scan loop reads the fields in order\<close>

lemma str_find_Some:
  "ch \<in> set (drop pos s) \<Longrightarrow>
     str_find s ch pos = Some (pos + length (takeWhile (\<lambda>x. x \<noteq> ch) (drop pos s)))"
  by (simp add: str_find_def)

lemma str_find_None: "ch \<notin> set (drop pos s) \<Longrightarrow> str_find s ch pos = None"
  by (simp add: str_find_def)

lemma tl_dropWhile_drop:
  "ch \<in> set s \<Longrightarrow> tl (dropWhile (\<lambda>x. x \<noteq> ch) s) = drop (Suc (length (takeWhile (\<lambda>x. x \<noteq> ch) s))) s"
  by (induction s) auto

lemma takeWhile_lt_length: "ch \<in> set s \<Longrightarrow> length (takeWhile (\<lambda>x. x \<noteq> ch) s) < length s"
  by (induction s) auto

lemma takeWhile_take_line:
  "ch \<in> set (takeWhile (\<lambda>x. x \<noteq> nl) s) \<Longrightarrow>
   takeWhile (\<lambda>x. x \<noteq> ch) (takeWhile (\<lambda>x. x \<noteq> nl) s) = takeWhile (\<lambda>x. x \<noteq> ch) s"
  by (induction s) (auto split: if_splits)

lemma in_line_iff:
  "nl \<noteq> ch \<Longrightarrow> ch \<in> set (takeWhile (\<lambda>x. x \<noteq> nl) s) \<longleftrightarrow>
     ch \<in> set s \<and> \<not> (nl \<in> set s \<and> length (takeWhile (\<lambda>x. x \<noteq> nl) s) < length (takeWhile (\<lambda>x. x \<noteq> ch) s))"
  by (induction s) (auto split: if_splits)

lemma value_in_line:
  "ch \<in> set (takeWhile (\<lambda>x. x \<noteq> nl) s) \<Longrightarrow>
   tl (dropWhile (\<lambda>x. x \<noteq> ch) (takeWhile (\<lambda>x. x \<noteq> nl) s)) =
     take (length (takeWhile (\<lambda>x. x \<noteq> nl) s) - Suc (length (takeWhile (\<lambda>x. x \<noteq> ch) s)))
       (drop (Suc (length (takeWhile (\<lambda>x. x \<noteq> ch) s))) s)"
  by (induction s) (auto split: if_splits simp: takeWhile_eq_take [symmetric])

lemma spec_lines_no_nl: "CHR 0x0A \<notin> set s \<Longrightarrow> spec_lines s = [s]"
  by (simp add: spec_lines.simps)

lemma spec_lines_nl:
  "CHR 0x0A \<in> set s \<Longrightarrow>
   spec_lines s = takeWhile (\<lambda>x. x \<noteq> CHR 0x0A) s
     # spec_lines (drop (Suc (length (takeWhile (\<lambda>x. x \<noteq> CHR 0x0A) s))) s)"
  by (subst spec_lines.simps) (simp add: tl_dropWhile_drop)

lemma spec_fields_no_nl:
  "CHR 0x0A \<notin> set s \<Longrightarrow>
   spec_fields s = (case spec_field s of None \<Rightarrow> [] | Some kv \<Rightarrow> [kv])"
  by (simp add: spec_fields_def spec_lines_no_nl List.map_filter_simps split: option.splits)

lemma spec_fields_nl:
  "CHR 0x0A \<in> set s \<Longrightarrow>
   spec_fields s =
     (case spec_field (takeWhile (\<lambda>x. x \<noteq> CHR 0x0A) s) of None \<Rightarrow> [] | Some kv \<Rightarrow> [kv])
     @ spec_fields (drop (Suc (length (takeWhile (\<lambda>x. x \<noteq> CHR 0x0A) s))) s)"
  by (simp add: spec_fields_def spec_lines_nl List.map_filter_simps split: option.splits)

lemma assign_all_append:
  "assign_all (xs @ ys) res = (case assign_all xs res of Inl e \<Rightarrow> Inl e | Inr r \<Rightarrow> assign_all ys r)"
  by (induction xs arbitrary: res) (auto split: sum.splits)

lemma scan_step_no_nl:
  assumes "CHR 0x0A \<notin> set (drop pos s)"
  shows "scan s pos res = line_step (drop pos s) res"
proof -
  have nl: "str_find s (CHR 0x0A) pos = None" using assms by (rule str_find_None)
  show ?thesis
  proof (cases "CHR '':'' \<in> set (drop pos s)")
    case False
    then show ?thesis using nl
      by (subst scan.simps) (simp add: str_find_None line_step_def spec_field_def)
  next
    case True
    then show ?thesis using nl
      apply (subst scan.simps)
      apply (simp add: str_find_Some line_step_def spec_field_def substr_def tl_dropWhile_drop
               takeWhile_eq_take [symmetric] add.commute split: sum.splits)
      done
  qed
qed

lemma drop_drop_Suc: "drop (Suc n) (drop pos s) = drop (Suc (pos + n)) s"
  by (simp add: add.commute)

lemma scan_step_nl:
  assumes "CHR 0x0A \<in> set (drop pos s)"
  shows "scan s pos res =
     (case line_step (takeWhile (\<lambda>x. x \<noteq> CHR 0x0A) (drop pos s)) res of
        Inl e \<Rightarrow> Inl e
      | Inr r \<Rightarrow> scan s (Suc (pos + length (takeWhile (\<lambda>x. x \<noteq> CHR 0x0A) (drop pos s)))) r)"
proof -
  let ?rest = "drop pos s"
  let ?a = "length (takeWhile (\<lambda>x. x \<noteq> CHR 0x0A) ?rest)"
  let ?b = "length (takeWhile (\<lambda>x. x \<noteq> CHR '':'') ?rest)"
  let ?line = "takeWhile (\<lambda>x. x \<noteq> CHR 0x0A) ?rest"
  have nl: "str_find s (CHR 0x0A) pos = Some (pos + ?a)"
    using assms by (rule str_find_Some)
  have "?a < length ?rest" using assms by (rule takeWhile_lt_length)
  then have bound: "\<not> length s < Suc (pos + ?a)" by simp
  have ne: "CHR 0x0A \<noteq> CHR '':''" by simp
  show ?thesis
  proof (cases "CHR '':'' \<in> set ?rest")
    case False
    then have "CHR '':'' \<notin> set ?line" by (meson set_takeWhileD)
    then have "line_step ?line res = Inr res" by (simp add: line_step_def spec_field_def)
    moreover have "str_find s (CHR '':'') pos = None" using False by (rule str_find_None)
    ultimately show ?thesis using nl bound by (subst scan.simps) simp
  next
    case True
    then have cp: "str_find s (CHR '':'') pos = Some (pos + ?b)" by (rule str_find_Some)
    show ?thesis
    proof (cases "?a < ?b")
      case True
      then have "CHR '':'' \<notin> set ?line" using in_line_iff [OF ne, of ?rest] assms by simp
      then have "line_step ?line res = Inr res" by (simp add: line_step_def spec_field_def)
      then show ?thesis using nl cp bound True by (subst scan.simps) simp
    next
      case False
      then have inl: "CHR '':'' \<in> set ?line"
        using in_line_iff [OF ne, of ?rest] \<open>CHR '':'' \<in> set ?rest\<close> by simp
      have key: "takeWhile (\<lambda>x. x \<noteq> CHR '':'') ?line = take ?b ?rest"
        using takeWhile_take_line [OF inl] by (simp add: takeWhile_eq_take [symmetric])
      have val: "tl (dropWhile (\<lambda>x. x \<noteq> CHR '':'') ?line) = take (?a - Suc ?b) (drop (Suc (pos + ?b)) s)"
        using value_in_line [OF inl] by (simp add: add.commute [of pos])
      have "line_step ?line res = assign (toLower (take ?b ?rest)) (take (?a - Suc ?b) (drop (Suc (pos + ?b)) s)) res"
        using inl key val by (simp add: line_step_def spec_field_def)
      then show ?thesis using nl cp bound False
        by (subst scan.simps) (simp add: substr_def cong: sum.case_cong)
    qed
  qed
qed

lemma assign_all_line_step:
  "assign_all ((case spec_field line of None \<Rightarrow> [] | Some kv \<Rightarrow> [kv]) @ kvs) res =
     (case line_step line res of Inl e \<Rightarrow> Inl e | Inr r \<Rightarrow> assign_all kvs r)"
  by (auto simp: line_step_def split: option.splits sum.splits)

lemma scan_refines_from:
  "scan s pos res = assign_all (spec_fields (drop pos s)) res"
proof (induction "length s - pos" arbitrary: pos res rule: less_induct)
  case less
  show ?case
  proof (cases "CHR 0x0A \<in> set (drop pos s)")
    case False
    then show ?thesis
      using assign_all_line_step [of "drop pos s" "[]" res]
      by (simp add: scan_step_no_nl [OF False] spec_fields_no_nl [OF False] split: sum.splits)
  next
    case True
    let ?a = "length (takeWhile (\<lambda>x. x \<noteq> CHR 0x0A) (drop pos s))"
    have "?a < length (drop pos s)" using True by (rule takeWhile_lt_length)
    then have "length s - Suc (pos + ?a) < length s - pos" by simp
    then have IH: "\<And>r. scan s (Suc (pos + ?a)) r = assign_all (spec_fields (drop (Suc (pos + ?a)) s)) r"
      by (rule less)
    have e: "Suc (?a + pos) = Suc (pos + ?a)" by simp
    show ?thesis
      by (simp add: scan_step_nl [OF True] spec_fields_nl [OF True] assign_all_line_step IH e
            cong: sum.case_cong)
  qed
qed

lemma scan_refines: "scan stats 0 res = assign_all (spec_fields stats) res"
  using scan_refines_from [of stats 0 res] by simp

subsection \<open>Field by field\<close>

lemma last_value_Nil: "last_value key [] = None"
  by (simp add: last_value_def)

lemma last_value_snoc:
  "last_value key (kvs @ [(k, v)]) = (if k = key then Some v else last_value key kvs)"
  by (simp add: last_value_def)

lemma assign_all_snoc:
  "assign_all (kvs @ [(k, v)]) res =
     (case assign_all kvs res of Inl e \<Rightarrow> Inl e | Inr r \<Rightarrow> assign k v r)"
  by (simp add: assign_all_append split: sum.splits)

lemma assign_name:
  "assign k v r = Inr r' \<Longrightarrow> m_name r' = (if k = ''name'' then v else m_name r)"
  by (auto simp: assign_def split: if_splits sum.splits)

lemma assign_ip:
  "assign k v r = Inr r' \<Longrightarrow> m_ip r' = (if k = ''ip'' then v else m_ip r)"
  by (auto simp: assign_def split: if_splits sum.splits)

lemma assign_platform:
  "assign k v r = Inr r' \<Longrightarrow> m_platform r' = (if k = ''platform'' then v else m_platform r)"
  by (auto simp: assign_def split: if_splits sum.splits)

lemma assign_noRemote:
  "assign k v r = Inr r' \<Longrightarrow>
   m_noRemote r' = (if k = ''noremote'' then toLower v = ''true'' else m_noRemote r)"
  by (auto simp: assign_def split: if_splits sum.splits)

lemma assign_offline:
  "assign k v r = Inr r' \<Longrightarrow>
   m_offline r' = (if k = ''state'' then toLower v = ''offline'' else m_offline r)"
  by (auto simp: assign_def split: if_splits sum.splits)

lemma assign_maxJobs:
  "assign k v r = Inr r' \<Longrightarrow>
   (if k = ''maxjobs'' then \<exists>i. stoi v = Inr i \<and> m_maxJobs r' = word_of_int i
    else m_maxJobs r' = m_maxJobs r)"
  by (auto simp: assign_def split: if_splits sum.splits)

lemma assign_hostId: "assign k v r = Inr r' \<Longrightarrow> m_hostId r' = m_hostId r"
  by (auto simp: assign_def split: if_splits sum.splits)

lemma assign_all_name:
  "assign_all kvs r0 = Inr r \<Longrightarrow>
   m_name r = (case last_value ''name'' kvs of None \<Rightarrow> m_name r0 | Some v \<Rightarrow> v)"
proof (induction kvs arbitrary: r rule: rev_induct)
  case Nil
  then show ?case by (simp add: last_value_Nil)
next
  case (snoc kv kvs)
  obtain k v where kv: "kv = (k, v)" by (cases kv)
  from snoc.prems obtain r1 where r1: "assign_all kvs r0 = Inr r1" and a: "assign k v r1 = Inr r"
    by (auto simp: kv assign_all_snoc split: sum.splits)
  show ?case using snoc.IH [OF r1] assign_name [OF a]
    by (simp add: kv last_value_snoc)
qed

lemma assign_all_ip:
  "assign_all kvs r0 = Inr r \<Longrightarrow>
   m_ip r = (case last_value ''ip'' kvs of None \<Rightarrow> m_ip r0 | Some v \<Rightarrow> v)"
proof (induction kvs arbitrary: r rule: rev_induct)
  case Nil
  then show ?case by (simp add: last_value_Nil)
next
  case (snoc kv kvs)
  obtain k v where kv: "kv = (k, v)" by (cases kv)
  from snoc.prems obtain r1 where r1: "assign_all kvs r0 = Inr r1" and a: "assign k v r1 = Inr r"
    by (auto simp: kv assign_all_snoc split: sum.splits)
  show ?case using snoc.IH [OF r1] assign_ip [OF a]
    by (simp add: kv last_value_snoc)
qed

lemma assign_all_platform:
  "assign_all kvs r0 = Inr r \<Longrightarrow>
   m_platform r = (case last_value ''platform'' kvs of None \<Rightarrow> m_platform r0 | Some v \<Rightarrow> v)"
proof (induction kvs arbitrary: r rule: rev_induct)
  case Nil
  then show ?case by (simp add: last_value_Nil)
next
  case (snoc kv kvs)
  obtain k v where kv: "kv = (k, v)" by (cases kv)
  from snoc.prems obtain r1 where r1: "assign_all kvs r0 = Inr r1" and a: "assign k v r1 = Inr r"
    by (auto simp: kv assign_all_snoc split: sum.splits)
  show ?case using snoc.IH [OF r1] assign_platform [OF a]
    by (simp add: kv last_value_snoc)
qed

lemma assign_all_noRemote:
  "assign_all kvs r0 = Inr r \<Longrightarrow>
   m_noRemote r =
     (case last_value ''noremote'' kvs of None \<Rightarrow> m_noRemote r0 | Some v \<Rightarrow> toLower v = ''true'')"
proof (induction kvs arbitrary: r rule: rev_induct)
  case Nil
  then show ?case by (simp add: last_value_Nil)
next
  case (snoc kv kvs)
  obtain k v where kv: "kv = (k, v)" by (cases kv)
  from snoc.prems obtain r1 where r1: "assign_all kvs r0 = Inr r1" and a: "assign k v r1 = Inr r"
    by (auto simp: kv assign_all_snoc split: sum.splits)
  show ?case using snoc.IH [OF r1] assign_noRemote [OF a]
    by (simp add: kv last_value_snoc)
qed

lemma assign_all_offline:
  "assign_all kvs r0 = Inr r \<Longrightarrow>
   m_offline r =
     (case last_value ''state'' kvs of None \<Rightarrow> m_offline r0 | Some v \<Rightarrow> toLower v = ''offline'')"
proof (induction kvs arbitrary: r rule: rev_induct)
  case Nil
  then show ?case by (simp add: last_value_Nil)
next
  case (snoc kv kvs)
  obtain k v where kv: "kv = (k, v)" by (cases kv)
  from snoc.prems obtain r1 where r1: "assign_all kvs r0 = Inr r1" and a: "assign k v r1 = Inr r"
    by (auto simp: kv assign_all_snoc split: sum.splits)
  show ?case using snoc.IH [OF r1] assign_offline [OF a]
    by (simp add: kv last_value_snoc)
qed

lemma assign_all_maxJobs:
  "assign_all kvs r0 = Inr r \<Longrightarrow>
   (case last_value ''maxjobs'' kvs of
      None \<Rightarrow> m_maxJobs r = m_maxJobs r0
    | Some v \<Rightarrow> \<exists>i. stoi v = Inr i \<and> m_maxJobs r = word_of_int i)"
proof (induction kvs arbitrary: r rule: rev_induct)
  case Nil
  then show ?case by (simp add: last_value_Nil)
next
  case (snoc kv kvs)
  obtain k v where kv: "kv = (k, v)" by (cases kv)
  from snoc.prems obtain r1 where r1: "assign_all kvs r0 = Inr r1" and a: "assign k v r1 = Inr r"
    by (auto simp: kv assign_all_snoc split: sum.splits)
  show ?case using snoc.IH [OF r1] assign_maxJobs [OF a]
    by (auto simp: kv last_value_snoc split: option.splits if_splits)
qed

subsection \<open>What a returned record went through\<close>

lemma assign_all_hostId: "assign_all kvs r0 = Inr r \<Longrightarrow> m_hostId r = m_hostId r0"
proof (induction kvs arbitrary: r0)
  case Nil
  then show ?case by simp
next
  case (Cons kv kvs)
  obtain k v where kv: "kv = (k, v)" by (cases kv)
  from Cons.prems obtain r1 where a: "assign k v r0 = Inr r1" and r1: "assign_all kvs r1 = Inr r"
    by (auto simp: kv split: sum.splits)
  show ?case using Cons.IH [OF r1] assign_hostId [OF a] by simp
qed

lemma create_Some_scan:
  "create hostId stats = Inr (Some res) \<Longrightarrow>
   hostId \<noteq> 0 \<and> isValid res \<and> assign_all (spec_fields stats) (NodeInfo_new hostId) = Inr res"
  by (auto simp: create_def scan_refines split: if_splits sum.splits)

lemma create_hostId: "create hostId stats = Inr (Some res) \<Longrightarrow> m_hostId res = hostId"
  using assign_all_hostId [of "spec_fields stats" "NodeInfo_new hostId" res]
  by (auto dest!: create_Some_scan simp: NodeInfo_new_def)

subsection \<open>The last occurrence of a key wins\<close>

text \<open>
  Claim C10. The scan loop is the left-to-right fold of \<open>assign\<close> over the fields of
  the blob, so every recognised line overwrites what an earlier line with the same key
  stored. In a record that \<open>create\<close> returns, name, address and platform are the values
  of the last field with that key, the number of jobs is \<^verbatim>\<open>std::stoi\<close> of the last
  \<^verbatim>\<open>maxjobs\<close> value, and the two flags are decided by the last \<^verbatim>\<open>noremote\<close> and
  \<^verbatim>\<open>state\<close> values (false when there is none).
\<close>

theorem last_occurrence_wins:
  "scan stats 0 r0 = assign_all (spec_fields stats) r0 \<and>
   (create hostId stats = Inr (Some res) \<longrightarrow>
      last_value ''name'' (spec_fields stats) = Some (m_name res) \<and>
      last_value ''ip'' (spec_fields stats) = Some (m_ip res) \<and>
      last_value ''platform'' (spec_fields stats) = Some (m_platform res) \<and>
      (\<exists>v i. last_value ''maxjobs'' (spec_fields stats) = Some v \<and> stoi v = Inr i
             \<and> m_maxJobs res = word_of_int i) \<and>
      m_noRemote res =
        (case last_value ''noremote'' (spec_fields stats) of
           None \<Rightarrow> False | Some v \<Rightarrow> toLower v = ''true'') \<and>
      m_offline res =
        (case last_value ''state'' (spec_fields stats) of
           None \<Rightarrow> False | Some v \<Rightarrow> toLower v = ''offline''))"
proof (intro conjI impI)
  show "scan stats 0 r0 = assign_all (spec_fields stats) r0" by (rule scan_refines)
next
  assume c: "create hostId stats = Inr (Some res)"
  let ?fs = "spec_fields stats"
  let ?r0 = "NodeInfo_new hostId"
  from create_Some_scan [OF c] have v: "isValid res" and a: "assign_all ?fs ?r0 = Inr res"
    by simp_all
  show "last_value ''name'' ?fs = Some (m_name res)"
    using assign_all_name [OF a] v by (simp add: isValid_def NodeInfo_new_def split: option.splits)
  show "last_value ''ip'' ?fs = Some (m_ip res)"
    using assign_all_ip [OF a] v by (simp add: isValid_def NodeInfo_new_def split: option.splits)
  show "last_value ''platform'' ?fs = Some (m_platform res)"
    using assign_all_platform [OF a] v
    by (simp add: isValid_def NodeInfo_new_def split: option.splits)
  show "\<exists>v i. last_value ''maxjobs'' ?fs = Some v \<and> stoi v = Inr i \<and> m_maxJobs res = word_of_int i"
    using assign_all_maxJobs [OF a] v
    by (auto simp: isValid_def NodeInfo_new_def split: option.splits)
  show "m_noRemote res = (case last_value ''noremote'' ?fs of None \<Rightarrow> False | Some v \<Rightarrow> toLower v = ''true'')"
    using assign_all_noRemote [OF a] by (simp add: NodeInfo_new_def split: option.splits)
  show "m_offline res = (case last_value ''state'' ?fs of None \<Rightarrow> False | Some v \<Rightarrow> toLower v = ''offline'')"
    using assign_all_offline [OF a] by (simp add: NodeInfo_new_def split: option.splits)
qed

lemma create_two_names:
  "create 7 blob_two_names =
     Inr (Some \<lparr>m_hostId = 7, m_name = ''beta'', m_ip = ''10.0.0.1'', m_maxJobs = 8,
                m_noRemote = False, m_offline = False, m_platform = ''x86_64''\<rparr>)"
  by code_simp

theorem last_occurrence_wins_witness:
  "create 7 blob_two_names =
     Inr (Some \<lparr>m_hostId = 7, m_name = ''beta'', m_ip = ''10.0.0.1'', m_maxJobs = 8,
                m_noRemote = False, m_offline = False, m_platform = ''x86_64''\<rparr>)
   \<and> last_value ''name'' (spec_fields blob_two_names) = Some ''beta''
   \<and> (\<exists>v i. last_value ''maxjobs'' (spec_fields blob_two_names) = Some v \<and> stoi v = Inr i
          \<and> (8 :: uint32) = word_of_int i)"
  using create_two_names
    last_occurrence_wins [of blob_two_names "NodeInfo_new 7" 7
      "\<lparr>m_hostId = 7, m_name = ''beta'', m_ip = ''10.0.0.1'', m_maxJobs = 8,
        m_noRemote = False, m_offline = False, m_platform = ''x86_64''\<rparr>"]
  by simp

subsection \<open>Three concrete blobs\<close>

text \<open>
  Claim C5, as the specification states it: scenario A with host id 1 gives the record
  whose name is \<open>alpha\<close>, whose address is \<open>10.0.0.1\<close> and whose platform is
  \<open>x86_64\<close>. The program returns another record.
\<close>

theorem scenario_A_not_trimmed:
  "create 1 scenario_A \<noteq>
     Inr (Some \<lparr>m_hostId = 1, m_name = ''alpha'', m_ip = ''10.0.0.1'', m_maxJobs = 4,
                m_noRemote = False, m_offline = False, m_platform = ''x86_64''\<rparr>)"
  by code_simp

text \<open>
  Claim C5, amended. The value of a field is everything between the colon and the end
  of the line, so in scenario A the three texts keep the space after the colon; only
  \<^verbatim>\<open>std::stoi\<close> skips it. The record is valid and is the one returned. Without the
  spaces the same lines give the record that the scenario names.
\<close>

theorem scenario_A_keeps_spaces:
  "create 1 scenario_A =
     Inr (Some \<lparr>m_hostId = 1, m_name = '' alpha'', m_ip = '' 10.0.0.1'', m_maxJobs = 4,
                m_noRemote = False, m_offline = False, m_platform = '' x86_64''\<rparr>)
   \<and> isValid \<lparr>m_hostId = 1, m_name = '' alpha'', m_ip = '' 10.0.0.1'', m_maxJobs = 4,
                m_noRemote = False, m_offline = False, m_platform = '' x86_64''\<rparr>
   \<and> create 1 scenario_A_no_spaces =
     Inr (Some \<lparr>m_hostId = 1, m_name = ''alpha'', m_ip = ''10.0.0.1'', m_maxJobs = 4,
                m_noRemote = False, m_offline = False, m_platform = ''x86_64''\<rparr>)"
  by code_simp

lemma create_blob_maxjobs_word: "create 1 blob_maxjobs_word = Inl InvalidArgument"
  by code_simp

text \<open>
  Claim C4 asks that a \<^verbatim>\<open>maxjobs\<close> value that is not a number only makes the record
  invalid. In the program \<^verbatim>\<open>std::stoi\<close> throws \<^verbatim>\<open>std::invalid_argument\<close> there;
  neither \<open>create\<close> nor \<^verbatim>\<open>main\<close> catches it, so one such message ends the process.
\<close>

theorem maxjobs_word_uncaught:
  "create 1 blob_maxjobs_word = Inl InvalidArgument
   \<and> main_polling lib fl [PollReady [Some (M_MON_STATS 1 blob_maxjobs_word)]]
       = Uncaught InvalidArgument"
  by (simp add: create_blob_maxjobs_word main_polling_def main_from_def handle_msg_def)

subsection \<open>What \<open>create\<close> returns, when it returns\<close>

text \<open>
  A record that comes back has a host id other than 0 and every required field; a blob
  that lacks one of them gives the empty result, as long as \<open>create\<close> returns at all;
  and \<open>create\<close> fails to return only through \<^verbatim>\<open>std::stoi\<close> on a \<^verbatim>\<open>maxjobs\<close> line.
\<close>

lemma create_returns_only_valid:
  "create hostId stats = Inr (Some res) \<Longrightarrow>
   hostId \<noteq> 0 \<and> m_hostId res = hostId \<and> m_name res \<noteq> [] \<and> m_ip res \<noteq> [] \<and>
   m_maxJobs res \<noteq> 0 \<and> m_platform res \<noteq> []"
  using create_Some_scan [of hostId stats res] create_hostId [of hostId stats res]
  by (simp add: isValid_def)

lemma create_hostId_0: "create 0 stats = Inr None"
  by (simp add: create_def)

lemma create_missing_field:
  assumes "create hostId stats = Inr r"
    and "field_missing ''name'' (spec_fields stats) \<or> field_missing ''ip'' (spec_fields stats)
         \<or> field_missing ''platform'' (spec_fields stats)
         \<or> last_value ''maxjobs'' (spec_fields stats) = None"
  shows "r = None"
proof (cases r)
  case None
  then show ?thesis .
next
  case (Some res)
  with assms(1) have c: "create hostId stats = Inr (Some res)" by simp
  from create_Some_scan [OF c] have v: "isValid res"
    and a: "assign_all (spec_fields stats) (NodeInfo_new hostId) = Inr res"
    by simp_all
  have "\<not> field_missing ''name'' (spec_fields stats)"
    using assign_all_name [OF a] v
    by (auto simp: field_missing_def isValid_def NodeInfo_new_def split: option.splits)
  moreover have "\<not> field_missing ''ip'' (spec_fields stats)"
    using assign_all_ip [OF a] v
    by (auto simp: field_missing_def isValid_def NodeInfo_new_def split: option.splits)
  moreover have "\<not> field_missing ''platform'' (spec_fields stats)"
    using assign_all_platform [OF a] v
    by (auto simp: field_missing_def isValid_def NodeInfo_new_def split: option.splits)
  moreover have "last_value ''maxjobs'' (spec_fields stats) \<noteq> None"
    using assign_all_maxJobs [OF a] v
    by (auto simp: isValid_def NodeInfo_new_def split: option.splits)
  ultimately show ?thesis using assms(2) by simp
qed

lemma create_throws_only_stoi:
  "create hostId stats = Inl e \<Longrightarrow>
   \<exists>v. (''maxjobs'', v) \<in> set (spec_fields stats) \<and> stoi v = Inl e"
proof -
  have *: "assign_all kvs r0 = Inl e \<Longrightarrow> \<exists>v. (''maxjobs'', v) \<in> set kvs \<and> stoi v = Inl e"
    for kvs r0
  proof (induction kvs arbitrary: r0)
    case Nil
    then show ?case by simp
  next
    case (Cons kv kvs)
    obtain k v where kv: "kv = (k, v)" by (cases kv)
    show ?case
    proof (cases "assign k v r0")
      case (Inl e')
      then have "e' = e" using Cons.prems kv by simp
      then have "k = ''maxjobs'' \<and> stoi v = Inl e"
        using Inl by (auto simp: assign_def split: if_splits sum.splits)
      then show ?thesis using kv by auto
    next
      case (Inr r1)
      then have "assign_all kvs r1 = Inl e" using Cons.prems kv by simp
      then show ?thesis using Cons.IH by auto
    qed
  qed
  assume "create hostId stats = Inl e"
  then have "assign_all (spec_fields stats) (NodeInfo_new hostId) = Inl e"
    by (auto simp: create_def scan_refines split: if_splits sum.splits)
  then show ?thesis by (rule *)
qed

text \<open>
  Claim C1 asks for the empty result on every blob that lacks a name, an address or a
  platform. The blob \<open>maxjobs:x\<close> lacks all three, and \<open>create\<close> does not return the
  empty result: the exception of \<^verbatim>\<open>std::stoi\<close> leaves it first.
\<close>

theorem only_maxjobs_not_absent:
  "create 1 blob_only_maxjobs = Inl InvalidArgument \<and> create 1 blob_only_maxjobs \<noteq> Inr None"
  by code_simp

section \<open>Properties of the ingestion\<close>

subsection \<open>One stats message\<close>

lemma create_blob_ok_5: "create 5 blob_ok = Inr (Some (node_ok 5))"
  by code_simp

lemma create_blob_ok_3: "create 3 blob_ok = Inr (Some (node_ok 3))"
  by code_simp

text \<open>
  Claim C2. For a stats message the record that \<open>create\<close> returns is valid and carries
  the host id of the message; it is appended to the collection, and \<^verbatim>\<open>hostIdMax\<close>
  becomes its host id, exactly when that host id is greater than \<^verbatim>\<open>hostIdMax\<close>.
  Otherwise, and when \<open>create\<close> returns no record, collection and \<^verbatim>\<open>hostIdMax\<close>
  stay as they are. (When \<^verbatim>\<open>std::stoi\<close> throws, nothing is appended either.)
\<close>

theorem stats_message_accepted_iff:
  "(case create hostid statmsg of
      Inl e \<Rightarrow> handle_msg st (M_MON_STATS hostid statmsg) = Inl (Uncaught e)
    | Inr None \<Rightarrow> handle_msg st (M_MON_STATS hostid statmsg) = Inr (st, False)
    | Inr (Some n) \<Rightarrow>
        isValid n \<and> m_hostId n = hostid \<and>
        handle_msg st (M_MON_STATS hostid statmsg) =
          Inr (if hostIdMax st < hostid
               then (\<lparr>nodes = nodes st @ [n], hostIdMax = hostid\<rparr>, True)
               else (st, False)))"
proof (cases "create hostid statmsg")
  case (Inl e)
  then show ?thesis by (simp add: handle_msg_def)
next
  case (Inr r)
  show ?thesis
  proof (cases r)
    case None
    then show ?thesis using Inr by (simp add: handle_msg_def)
  next
    case (Some n)
    with Inr have c: "create hostid statmsg = Inr (Some n)" by simp
    have "isValid n" using create_Some_scan [OF c] by simp
    moreover have "m_hostId n = hostid" using c by (rule create_hostId)
    ultimately show ?thesis using c by (simp add: handle_msg_def)
  qed
qed

theorem stats_message_accepted_iff_witness:
  "handle_msg \<lparr>nodes = [node_ok 3], hostIdMax = 3\<rparr> (M_MON_STATS 5 blob_ok)
     = Inr (\<lparr>nodes = [node_ok 3, node_ok 5], hostIdMax = 5\<rparr>, True)
   \<and> handle_msg \<lparr>nodes = [node_ok 3], hostIdMax = 3\<rparr> (M_MON_STATS 3 blob_ok)
     = Inr (\<lparr>nodes = [node_ok 3], hostIdMax = 3\<rparr>, False)"
  using
    stats_message_accepted_iff
      [where hostid = 5 and statmsg = blob_ok and st = "\<lparr>nodes = [node_ok 3], hostIdMax = 3\<rparr>"]
    stats_message_accepted_iff
      [where hostid = 3 and statmsg = blob_ok and st = "\<lparr>nodes = [node_ok 3], hostIdMax = 3\<rparr>"]
  by (simp add: create_blob_ok_5 create_blob_ok_3)

subsection \<open>The invariant is kept\<close>

lemma sorted_wrt_less_last:
  "sorted_wrt (<) (xs :: 'a :: linorder list) \<Longrightarrow> x \<in> set xs \<Longrightarrow> x \<le> last xs"
proof (induction xs)
  case Nil
  then show ?case by simp
next
  case (Cons a xs)
  show ?case
  proof (cases "xs = []")
    case True
    then show ?thesis using Cons.prems by simp
  next
    case False
    then have "last xs \<in> set xs" by simp
    then have "a \<le> last xs" using Cons.prems(1) by (simp add: less_imp_le)
    then show ?thesis using Cons False by auto
  qed
qed

lemma handle_msg_inv:
  assumes "ingest_inv st" and "handle_msg st msg = Inr (st', u)"
  shows "ingest_inv st'"
proof (cases msg)
  case (M_MON_STATS hostid statmsg)
  show ?thesis
  proof (cases "\<exists>n. create hostid statmsg = Inr (Some n) \<and> hostIdMax st < m_hostId n")
    case False
    then have "st' = st" using assms(2) M_MON_STATS
      by (auto simp: handle_msg_def split: sum.splits option.splits if_splits)
    then show ?thesis using assms(1) by simp
  next
    case True
    then obtain n where c: "create hostid statmsg = Inr (Some n)" and lt: "hostIdMax st < m_hostId n"
      by blast
    then have st': "st' = st\<lparr>hostIdMax := m_hostId n, nodes := nodes st @ [n]\<rparr>"
      using assms(2) M_MON_STATS by (simp add: handle_msg_def)
    have "\<forall>x \<in> set (map m_hostId (nodes st)). x < m_hostId n"
    proof (cases "nodes st = []")
      case True
      then show ?thesis by simp
    next
      case False
      then have "last (map m_hostId (nodes st)) = hostIdMax st"
        using assms(1) by (simp add: ingest_inv_def last_map)
      moreover have "\<forall>x \<in> set (map m_hostId (nodes st)). x \<le> last (map m_hostId (nodes st))"
        using assms(1) by (auto simp: ingest_inv_def intro!: sorted_wrt_less_last)
      ultimately show ?thesis using lt by auto
    qed
    then show ?thesis using assms(1)
      by (simp add: st' ingest_inv_def sorted_wrt_append)
  qed
next
  case M_END
  then show ?thesis using assms by (simp add: handle_msg_def)
next
  case M_OTHER
  then show ?thesis using assms by (simp add: handle_msg_def)
qed

lemma drain_inv:
  "ingest_inv st \<Longrightarrow> drain st u ms = Inr (st', u') \<Longrightarrow> ingest_inv st'"
proof (induction st u ms rule: drain.induct)
  case (1 st useful)
  then show ?case by simp
next
  case (2 st useful ms)
  then show ?case by simp
next
  case (3 st useful msg ms)
  from "3.prems"(2) obtain st1 u1 where h: "handle_msg st msg = Inr (st1, u1)"
    and d: "drain st1 (useful \<or> u1) ms = Inr (st', u')"
    by (auto split: sum.splits)
  have "ingest_inv st1" using "3.prems"(1) h by (rule handle_msg_inv)
  then show ?case using "3.IH" [OF h refl] d by simp
qed

lemma poll_loop_inv:
  "ingest_inv st \<Longrightarrow> poll_loop st k evs = Inr st' \<Longrightarrow> ingest_inv st'"
proof (induction st k evs rule: poll_loop.induct)
  case (4 st k ms evs)
  from "4.prems"(2) obtain st1 u1 where d: "drain st False ms = Inr (st1, u1)"
    by (auto split: sum.splits)
  have i1: "ingest_inv st1" using "4.prems"(1) d by (rule drain_inv)
  show ?case
  proof (cases "(if \<not> u1 then k + 1 else 0) < USELESS_POLLS_IN_A_ROW_MAX")
    case True
    then show ?thesis using "4.IH" [OF d refl refl _ i1] "4.prems"(2) d by (simp add: Let_def)
  next
    case False
    then show ?thesis using "4.prems"(2) d i1 by (simp add: Let_def)
  qed
qed simp_all

lemma poll_loop_0705_inv:
  "ingest_inv st \<Longrightarrow> poll_loop_0705 st evs = Inr st' \<Longrightarrow> ingest_inv st'"
proof (induction st evs rule: poll_loop_0705.induct)
  case (4 st ms evs)
  from "4.prems"(2) obtain st1 u1 where d: "drain st False ms = Inr (st1, u1)"
    by (auto split: sum.splits)
  have i1: "ingest_inv st1" using "4.prems"(1) d by (rule drain_inv)
  show ?case
  proof (cases u1)
    case True
    then show ?thesis using "4.IH" [OF d refl True i1] "4.prems"(2) d by simp
  next
    case False
    then show ?thesis using "4.prems"(2) d i1 by simp
  qed
qed simp_all

subsection \<open>Distinct host ids, distinct \<^verbatim>\<open>Node #\<close> cells\<close>

declare to_string.simps [simp del]

lemma digits_val_snoc: "digits_val (ds @ [d]) = 10 * digits_val ds + digit_val d"
  by (simp add: digits_val_def)

lemma digit_val_char_of: "d < 10 \<Longrightarrow> digit_val (char_of (48 + d)) = int d"
  by (simp add: digit_val_def)

lemma digits_val_to_string: "digits_val (to_string n) = int n"
proof (induction n rule: to_string.induct)
  case (1 n)
  show ?case
  proof (cases "n < 10")
    case True
    then show ?thesis
      by (subst to_string.simps) (simp add: digits_val_def digit_val_char_of)
  next
    case False
    then have "digits_val (to_string n) = 10 * int (n div 10) + int (n mod 10)"
      using "1.IH" by (subst to_string.simps) (simp add: digits_val_snoc digit_val_char_of)
    then show ?thesis by (simp add: zdiv_int zmod_int)
  qed
qed

lemma to_string_inj:
  assumes "to_string a = to_string b"
  shows "a = b"
proof -
  have "int a = digits_val (to_string a)" by (simp only: digits_val_to_string)
  also have "\<dots> = digits_val (to_string b)" by (simp only: assms)
  also have "\<dots> = int b" by (rule digits_val_to_string)
  finally show ?thesis by simp
qed

lemma node_number_cells_distinct:
  assumes "distinct (map m_hostId ns)"
  shows "distinct (node_number_cells fl ns)"
proof -
  have "distinct (map m_hostId (filter (shown fl) ns))"
    using assms by (rule distinct_map_filter)
  moreover have "inj_on (\<lambda>h. to_string (unat h)) (set (map m_hostId (filter (shown fl) ns)))"
    by (rule inj_onI) (auto dest!: to_string_inj simp: word_unat_eq_iff)
  ultimately have "distinct (map (\<lambda>h. to_string (unat h)) (map m_hostId (filter (shown fl) ns)))"
    by (simp only: distinct_map)
  then show ?thesis by (simp add: node_number_cells_def node_strings_def comp_def)
qed

lemma ingest_inv_init: "ingest_inv ingest_init"
  by (simp add: ingest_inv_def ingest_init_def)

lemma ingest_inv_distinct: "ingest_inv st \<Longrightarrow> distinct (map m_hostId (nodes st))"
  by (simp add: ingest_inv_def strict_sorted_iff)

text \<open>
  Claim C9. The invariant holds before the first message and every message that is
  handled keeps it: the host ids of the collection increase strictly in the order of
  insertion and \<^verbatim>\<open>hostIdMax\<close> is the host id added last. When the polling loop is left,
  in revision 20140510 as in revision 20140705, no two collected nodes share a host id,
  and no two rows of the table share the text of their \<^verbatim>\<open>Node #\<close> cell.
\<close>

theorem collection_ids_increase:
  "ingest_inv ingest_init \<and>
   (ingest_inv st \<and> handle_msg st msg = Inr (st', u) \<longrightarrow> ingest_inv st') \<and>
   (poll_loop ingest_init 0 evs = Inr st1 \<or> poll_loop_0705 ingest_init evs = Inr st1 \<longrightarrow>
      ingest_inv st1 \<and> distinct (map m_hostId (nodes st1)) \<and>
      distinct (node_number_cells fl (nodes st1)))"
proof (intro conjI impI)
  show "ingest_inv ingest_init" by (rule ingest_inv_init)
next
  assume "ingest_inv st \<and> handle_msg st msg = Inr (st', u)"
  then show "ingest_inv st'" using handle_msg_inv by blast
next
  assume "poll_loop ingest_init 0 evs = Inr st1 \<or> poll_loop_0705 ingest_init evs = Inr st1"
  then show i: "ingest_inv st1"
    using poll_loop_inv [OF ingest_inv_init] poll_loop_0705_inv [OF ingest_inv_init] by blast
  then show d: "distinct (map m_hostId (nodes st1))" by (rule ingest_inv_distinct)
  then show "distinct (node_number_cells fl (nodes st1))" by (rule node_number_cells_distinct)
qed

lemma poll_loop_events_3_5_4:
  "poll_loop ingest_init 0 events_3_5_4 = Inr \<lparr>nodes = [node_ok 3, node_ok 5], hostIdMax = 5\<rparr>"
  by code_simp

theorem collection_ids_increase_witness:
  "poll_loop ingest_init 0 events_3_5_4 = Inr \<lparr>nodes = [node_ok 3, node_ok 5], hostIdMax = 5\<rparr>
   \<and> ingest_inv \<lparr>nodes = [node_ok 3, node_ok 5], hostIdMax = 5\<rparr>
   \<and> distinct (node_number_cells flags_default [node_ok 3, node_ok 5])"
  using poll_loop_events_3_5_4
    collection_ids_increase
      [where evs = events_3_5_4 and fl = flags_default
         and ?st1.0 = "\<lparr>nodes = [node_ok 3, node_ok 5], hostIdMax = 5\<rparr>"]
  by simp

subsection \<open>The end of the session\<close>

lemma drain_append_END:
  "drain st u ms = Inr (st', u') \<Longrightarrow>
   drain st u (ms @ Some M_END # rest) = Inl (Exit EXIT_CONNECTION_ERR [])"
proof (induction st u ms rule: drain.induct)
  case (1 st useful)
  then show ?case by (simp add: handle_msg_def)
next
  case (2 st useful ms)
  then show ?case by simp
next
  case (3 st useful msg ms)
  from "3.prems" obtain st1 u1 where h: "handle_msg st msg = Inr (st1, u1)"
    and d: "drain st1 (useful \<or> u1) ms = Inr (st', u')"
    by (auto split: sum.splits)
  show ?case using "3.IH" [OF h refl d] h by simp
qed

text \<open>
  Claim C7. Whatever has been collected, and whatever else the poll and the later polls
  would bring: once the messages before it have been handled, the message \<^verbatim>\<open>M_END\<close>
  makes \<^verbatim>\<open>main\<close> return 2 with nothing written to the standard output. The loop of
  revision 20140705 is left with the same exit code.
\<close>

theorem end_of_session_fatal:
  "drain st False ms = Inr (st', u) \<Longrightarrow>
   main_from lib fl st k (PollReady (ms @ Some M_END # rest) # evs) = Exit 2 [] \<and>
   poll_loop_0705 st (PollReady (ms @ Some M_END # rest) # evs) = Inl (Exit 2 [])"
  by (simp add: main_from_def drain_append_END EXIT_CONNECTION_ERR_def)

lemma drain_one_ok:
  "drain \<lparr>nodes = [node_ok 3], hostIdMax = 3\<rparr> False [Some (M_MON_STATS 5 blob_ok)]
     = Inr (\<lparr>nodes = [node_ok 3, node_ok 5], hostIdMax = 5\<rparr>, True)"
  by code_simp

theorem end_of_session_fatal_witness:
  "drain \<lparr>nodes = [node_ok 3], hostIdMax = 3\<rparr> False [Some (M_MON_STATS 5 blob_ok)]
     = Inr (\<lparr>nodes = [node_ok 3, node_ok 5], hostIdMax = 5\<rparr>, True)
   \<and> main_from icu_bytes flags_default \<lparr>nodes = [node_ok 3], hostIdMax = 3\<rparr> 0
       [PollReady [Some (M_MON_STATS 5 blob_ok), Some M_END, Some (M_MON_STATS 6 blob_ok)],
        PollTimedOut]
     = Exit 2 []"
  using end_of_session_fatal [OF drain_one_ok, of icu_bytes flags_default 0
      "[Some (M_MON_STATS 6 blob_ok)]" "[PollTimedOut]"] drain_one_ok
  by simp

subsection \<open>Timeout and failure of \<^verbatim>\<open>poll\<close>\<close>

text \<open>
  Claim C6, as the specification states it for either polling policy: a timeout of
  \<^verbatim>\<open>poll\<close> with nothing collected is "no usable data", exit code 3, and a failure of
  \<^verbatim>\<open>poll\<close> is exit code 2. The early revision that polls once returns 1 in both cases.
\<close>

theorem one_poll_timeout_returns_1:
  "main_one_poll icu_bytes globals_one_poll PollTimedOut = Exit 1 [] \<and>
   main_one_poll icu_bytes globals_one_poll PollTimedOut \<noteq> Exit 3 [] \<and>
   main_one_poll icu_bytes globals_one_poll PollFailed = Exit 1 [] \<and>
   main_one_poll icu_bytes globals_one_poll PollFailed \<noteq> Exit 2 []"
  by (simp add: main_one_poll_def)

text \<open>
  Claim C6, amended. In revision 20140510, when \<^verbatim>\<open>poll\<close> times out while the
  collection is empty, \<^verbatim>\<open>main\<close> returns 3 (no useful data), in particular when the very
  first \<^verbatim>\<open>poll\<close> times out; when \<^verbatim>\<open>poll\<close> fails, \<^verbatim>\<open>main\<close> returns 2 (connection
  error) whatever the collection holds. The loop of revision 20140705 is left in the
  same two ways: unchanged on a timeout, so that an empty collection leads to exit code
  3, and with exit code 2 on a failure. In the early revision that polls once, a
  timeout and a failure of the one \<^verbatim>\<open>poll\<close> both make \<^verbatim>\<open>main\<close> return 1, whatever the
  flags.
\<close>

theorem poll_timeout_is_no_data:
  "(nodes st = [] \<longrightarrow> main_from lib fl st k (PollTimedOut # evs) = Exit 3 []) \<and>
   main_polling lib fl (PollTimedOut # evs) = Exit 3 [] \<and>
   main_from lib fl st k (PollFailed # evs) = Exit 2 [] \<and>
   poll_loop_0705 st (PollTimedOut # evs) = Inr st \<and>
   report lib fl [] = Exit 3 [] \<and>
   poll_loop_0705 st (PollFailed # evs) = Inl (Exit 2 []) \<and>
   main_one_poll lib fl PollTimedOut = Exit 1 [] \<and>
   main_one_poll lib fl PollFailed = Exit 1 []"
  by (simp add: main_from_def main_polling_def report_def ingest_init_def
        EXIT_NO_DATA_def EXIT_CONNECTION_ERR_def main_one_poll_def)

theorem poll_timeout_is_no_data_witness:
  "main_from icu_bytes flags_default ingest_init 2 [PollTimedOut] = Exit 3 [] \<and>
   main_from icu_bytes flags_default \<lparr>nodes = [node_ok 3], hostIdMax = 3\<rparr> 0 [PollFailed]
     = Exit 2 []"
  using
    poll_timeout_is_no_data
      [where st = ingest_init and lib = icu_bytes and fl = flags_default and k = 2
         and evs = "[]"]
    poll_timeout_is_no_data
      [where st = "\<lparr>nodes = [node_ok 3], hostIdMax = 3\<rparr>" and lib = icu_bytes
         and fl = flags_default and k = 0 and evs = "[]"]
  by (simp add: ingest_init_def EXIT_CONNECTION_ERR_def)

section \<open>Properties of the summary\<close>

lemma coreCount_foldl:
  "foldl (\<lambda>count node.
            if \<not> m_noRemote node \<and> \<not> m_offline node then count + m_maxJobs node else count)
     a ns
   = a + sum_list (map m_maxJobs (filter active ns))"
  by (induction ns arbitrary: a) (simp_all add: active_def)

lemma coreCount_sum_list: "coreCount ns = sum_list (map m_maxJobs (filter active ns))"
  by (simp add: coreCount_def coreCount_foldl)

lemma unat_sum_list:
  "unat (sum_list (ws :: uint32 list)) = sum_list (map unat ws) mod 2 ^ 32"
proof (induction ws)
  case Nil
  then show ?case by simp
next
  case (Cons w ws)
  have "unat (w + sum_list ws) = (unat w + unat (sum_list ws)) mod 2 ^ 32"
    by (simp add: unat_word_ariths)
  also have "\<dots> = (unat w + sum_list (map unat ws) mod 2 ^ 32) mod 2 ^ 32"
    by (simp only: Cons.IH)
  also have "\<dots> = (unat w + sum_list (map unat ws)) mod 2 ^ 32"
    by (rule mod_add_right_eq)
  finally show ?case by simp
qed

lemma report_prints_coreCount:
  "report lib fl ns = Exit 3 [] \<or>
   (\<exists>table. report lib fl ns =
      Exit 0 (table @ (if brief fl then to_string (unat (coreCount ns)) @ [CHR 0x0A]
                       else summary_line (nodeCount fl ns) (coreCount ns))))"
proof (cases "ns = [] \<or> list_all (filtered_out fl) ns")
  case True
  then show ?thesis by (simp add: report_def EXIT_NO_DATA_def)
next
  case False
  show ?thesis
  proof (cases "brief fl")
    case True
    then have "report lib fl ns = Exit 0 ([] @ to_string (unat (coreCount ns)) @ [CHR 0x0A])"
      using False by (simp add: report_def EXIT_OK_def)
    then show ?thesis using True by (intro disjI2 exI [of _ "[]"]) simp
  next
    case b: False
    let ?t = "if \<not> noTable fl
          then [CHR 0x0A]
               @ c_str (the (renderTable lib header7 (table_strings fl ns) (plain fl) (ascii fl)))
               @ [CHR 0x0A]
          else []"
    have "report lib fl ns = Exit 0 (?t @ summary_line (nodeCount fl ns) (coreCount ns))"
      using False b by (simp add: report_def EXIT_OK_def)
    then show ?thesis using b by (intro disjI2 exI [of _ ?t]) simp
  qed
qed

lemma create_blob_minus_one: "create 1 blob_minus_one = Inr (Some (nodes_wrap ! 0))"
  by code_simp

lemma create_blob_two_jobs: "create 2 blob_two_jobs = Inr (Some (nodes_wrap ! 1))"
  by code_simp

lemma poll_loop_events_wrap:
  "poll_loop ingest_init 0 events_wrap = Inr \<lparr>nodes = nodes_wrap, hostIdMax = 2\<rparr>"
  using create_blob_minus_one create_blob_two_jobs
  by (simp add: events_wrap_def handle_msg_def ingest_init_def nodes_wrap_def
        USELESS_POLLS_IN_A_ROW_MAX_def)

lemma coreCount_nodes_wrap: "coreCount nodes_wrap = 1"
  by (simp add: coreCount_def nodes_wrap_def)

lemma to_string_1: "to_string (Suc 0) = ''1''"
  by code_simp

text \<open>
  Claim C3, as the specification states it: \<^verbatim>\<open>coreCount\<close> is the sum of \<^verbatim>\<open>maxJobs\<close>
  over the nodes that are neither offline nor closed to remote jobs. The two nodes
  below are accepted from one poll, both count, their \<^verbatim>\<open>maxJobs\<close> sum to 4294967297,
  and the program prints 1.
\<close>

theorem coreCount_wraps:
  "poll_loop ingest_init 0 events_wrap = Inr \<lparr>nodes = nodes_wrap, hostIdMax = 2\<rparr> \<and>
   sum_list (map (\<lambda>node. unat (m_maxJobs node)) (filter active nodes_wrap)) = 4294967297 \<and>
   unat (coreCount nodes_wrap) = 1 \<and>
   main_polling icu_bytes (flags_default\<lparr>brief := True\<rparr>) events_wrap
     = Exit 0 (''1'' @ [CHR 0x0A])"
proof (intro conjI)
  show "poll_loop ingest_init 0 events_wrap = Inr \<lparr>nodes = nodes_wrap, hostIdMax = 2\<rparr>"
    by (rule poll_loop_events_wrap)
  show "sum_list (map (\<lambda>node. unat (m_maxJobs node)) (filter active nodes_wrap)) = 4294967297"
    by (simp add: nodes_wrap_def active_def)
  show "unat (coreCount nodes_wrap) = 1"
    by (simp add: coreCount_nodes_wrap)
  have "report icu_bytes (flags_default\<lparr>brief := True\<rparr>) nodes_wrap
      = Exit 0 (''1'' @ [CHR 0x0A])"
  proof -
    have "nodes_wrap \<noteq> []" by (simp add: nodes_wrap_def)
    moreover have "\<not> list_all (filtered_out (flags_default\<lparr>brief := True\<rparr>)) nodes_wrap"
      by (simp add: nodes_wrap_def filtered_out_def flags_default_def)
    ultimately show ?thesis
      by (simp add: report_def coreCount_nodes_wrap to_string_1 EXIT_OK_def flags_default_def)
  qed
  then show "main_polling icu_bytes (flags_default\<lparr>brief := True\<rparr>) events_wrap
     = Exit 0 (''1'' @ [CHR 0x0A])"
    by (simp add: main_polling_def main_from_def poll_loop_events_wrap)
qed

text \<open>
  Claim C3, amended. \<^verbatim>\<open>coreCount\<close> is the sum, in \<^verbatim>\<open>uint32_t\<close> arithmetic, of \<^verbatim>\<open>maxJobs\<close>
  over the nodes that are neither offline nor closed to remote jobs: as a number it is
  the sum of their \<^verbatim>\<open>maxJobs\<close> modulo \<open>2^32\<close>, which is the sum itself whenever that is
  below \<open>2^32\<close>. No other node contributes. The filter flags do not enter the
  computation: whatever the flags, \<^verbatim>\<open>main\<close> either reports that there is no useful data
  or ends its output with this one value.
\<close>

theorem coreCount_ignores_filters:
  "coreCount ns = sum_list (map m_maxJobs (filter active ns)) \<and>
   unat (coreCount ns) = sum_list (map (\<lambda>node. unat (m_maxJobs node)) (filter active ns)) mod 2 ^ 32 \<and>
   (sum_list (map (\<lambda>node. unat (m_maxJobs node)) (filter active ns)) < 2 ^ 32 \<longrightarrow>
      unat (coreCount ns) = sum_list (map (\<lambda>node. unat (m_maxJobs node)) (filter active ns))) \<and>
   (report lib fl ns = Exit 3 [] \<or>
    (\<exists>table. report lib fl ns =
       Exit 0 (table @ (if brief fl then to_string (unat (coreCount ns)) @ [CHR 0x0A]
                        else summary_line (nodeCount fl ns) (coreCount ns)))))"
  using report_prints_coreCount [of lib fl ns]
  by (simp add: coreCount_sum_list unat_sum_list comp_def)

lemma report_scenario_C:
  "report icu_bytes (flags_default\<lparr>brief := True, noOffline := True\<rparr>) scenario_C
     = Exit 0 (''8'' @ [CHR 0x0A])"
  by code_simp

lemma sum_scenario_C:
  "sum_list (map (\<lambda>node. unat (m_maxJobs node)) (filter active scenario_C)) = 8"
  by (simp add: scenario_C_def active_def node_ok_def)

theorem coreCount_ignores_filters_witness:
  "sum_list (map (\<lambda>node. unat (m_maxJobs node)) (filter active scenario_C)) < 2 ^ 32 \<and>
   unat (coreCount scenario_C) = 8 \<and>
   report icu_bytes (flags_default\<lparr>brief := True, noOffline := True\<rparr>) scenario_C
     = Exit 0 (''8'' @ [CHR 0x0A]) \<and>
   nodeCount flags_default scenario_C = 2"
proof -
  note t = coreCount_ignores_filters [of scenario_C icu_bytes flags_default]
  have "sum_list (map (\<lambda>node. unat (m_maxJobs node)) (filter active scenario_C)) < 2 ^ 32 \<longrightarrow>
      unat (coreCount scenario_C)
        = sum_list (map (\<lambda>node. unat (m_maxJobs node)) (filter active scenario_C))"
    by (rule conjunct1 [OF conjunct2 [OF conjunct2 [OF t]]])
  then have "unat (coreCount scenario_C) = 8" by (simp add: sum_scenario_C)
  moreover have "nodeCount flags_default scenario_C = 2"
    by (simp add: nodeCount_def scenario_C_def shown_def flags_default_def)
  ultimately show ?thesis using report_scenario_C by (simp add: sum_scenario_C)
qed

section \<open>Properties of the table renderer\<close>

subsection \<open>The width of a column is the maximum over its cells\<close>

lemma foldl_max_ge_init: "a \<le> foldl (\<lambda>m r. max m (f r)) a rs"
  for a :: nat
proof (induction rs arbitrary: a)
  case Nil
  show ?case by simp
next
  case (Cons r rs)
  have "a \<le> max a (f r)" by simp
  also have "\<dots> \<le> foldl (\<lambda>m r. max m (f r)) (max a (f r)) rs" by (rule Cons.IH)
  finally show ?case by simp
qed

lemma foldl_max_ge_elem: "r \<in> set rs \<Longrightarrow> f r \<le> foldl (\<lambda>m r. max m (f r)) a rs"
  for a :: nat
proof (induction rs arbitrary: a)
  case Nil
  then show ?case by simp
next
  case (Cons x rs)
  show ?case
  proof (cases "r = x")
    case True
    have "f x \<le> max a (f x)" by simp
    also have "\<dots> \<le> foldl (\<lambda>m r. max m (f r)) (max a (f x)) rs" by (rule foldl_max_ge_init)
    finally show ?thesis using True by simp
  next
    case False
    then have "r \<in> set rs" using Cons.prems by simp
    then show ?thesis using Cons.IH by simp
  qed
qed

lemma foldl_max_attained:
  "foldl (\<lambda>m r. max m (f r)) a rs = a \<or> (\<exists>r \<in> set rs. foldl (\<lambda>m r. max m (f r)) a rs = f r)"
  for a :: nat
proof (induction rs arbitrary: a)
  case Nil
  show ?case by simp
next
  case (Cons x rs)
  from Cons.IH [of "max a (f x)"] show ?case
    by (auto simp: max_def split: if_splits)
qed

lemma colMaxLen_is_Max:
  "colMaxLen lib header strings pln has_trans rowCount c
     = Max (cell_width lib header strings pln has_trans c ` {0..rowCount})"
proof -
  let ?f = "cell_width lib header strings pln has_trans c"
  let ?m = "foldl (\<lambda>m r. max m (?f r)) 0 [0..<rowCount + 1]"
  have m: "colMaxLen lib header strings pln has_trans rowCount c = ?m"
    by (simp add: colMaxLen_def cell_width_def)
  have set: "set [0..<rowCount + 1] = {0..rowCount}" by auto
  have ub: "\<And>y. y \<in> ?f ` {0..rowCount} \<Longrightarrow> y \<le> ?m"
    using foldl_max_ge_elem [of _ "[0..<rowCount + 1]" ?f 0] set by blast
  have "?m = 0 \<or> (\<exists>r \<in> {0..rowCount}. ?m = ?f r)"
    using foldl_max_attained [of ?f 0 "[0..<rowCount + 1]"] by (simp only: set)
  moreover have "?m = 0 \<Longrightarrow> ?m = ?f 0"
    using ub [of "?f 0"] by simp
  ultimately have mem: "?m \<in> ?f ` {0..rowCount}" by auto
  have "Max (?f ` {0..rowCount}) = ?m"
    using mem ub by (intro Max_eqI) auto
  then show ?thesis using m by simp
qed

lemma cell_width_le_colMaxLen:
  "r \<le> rowCount \<Longrightarrow>
   cell_width lib header strings pln has_trans c r
     \<le> colMaxLen lib header strings pln has_trans rowCount c"
  by (simp add: colMaxLen_is_Max)

subsection \<open>The rendered table\<close>

lemma renderTable_Some:
  "header \<noteq> [] \<Longrightarrow>
   renderTable lib header strings pln asc =
     Some (concat (map piece_text
       (table_pieces lib header strings pln asc (asc \<and> trans_ok lib)
          (length strings div length header))))"
  by (simp add: renderTable_def Let_def)

lemma renderTable_None: "renderTable lib [] strings pln asc = None"
  by (simp add: renderTable_def)

lemma renderTable_example:
  "renderTable icu_bytes header3 strings3 False True =
     Some ('' Node # | Up  | IP        '' @ [CHR 0x0A]
           @ ''--------+-----+-----------'' @ [CHR 0x0A]
           @ ''      7 | yes | 10.0.0.1  '' @ [CHR 0x0A]
           @ ''     12 |  X  | 10.0.0.22 '' @ [CHR 0x0A])"
  by code_simp

lemma colMaxLen_example: "colMaxLen icu_bytes header3 strings3 False True 2 1 = 3"
  by code_simp

lemma strings3_length: "length strings3 = 2 * length header3"
  by (simp add: strings3_def header3_def)

subsection \<open>The text of the table\<close>

lemma join_snoc: "join sep (xs @ [x]) = (if xs = [] then x else join sep xs @ sep @ x)"
  by (induction sep xs rule: join.induct) simp_all

lemma concat_separated:
  "concat (map (\<lambda>c. (if 0 < c then sep else []) @ g c) [0..<n]) = join sep (map g [0..<n])"
proof (induction n)
  case 0
  show ?case by simp
next
  case (Suc n)
  then show ?case by (auto simp: join_snoc)
qed

lemma length_join:
  "length (join sep xs) = sum_list (map length xs) + (length xs - 1) * length sep"
  by (induction sep xs rule: join.induct) simp_all

lemma pieces_text_concat:
  "concat (map piece_text (concat (map F xs))) = concat (map (\<lambda>c. concat (map piece_text (F c))) xs)"
  by (induction xs) simp_all

lemma border_piece_text:
  "concat (map piece_text (if P then [Border b] else [])) = (if P then b else [])"
  by simp

lemma cross_piece_text:
  "concat (map piece_text (if P then [Cross b] else [])) = (if P then b else [])"
  by simp

lemma concat_replicate_HorLine:
  "concat (map piece_text (replicate k (HorLine h))) = concat (replicate k h)"
  by (induction k) simp_all

lemma row_pieces_text:
  "concat (map piece_text (row_pieces lib header strings pln asc has_trans rowCount r))
     = join (border pln asc)
         (map (\<lambda>c. padded_cell lib header strings pln has_trans rowCount c r) [0..<length header])
       @ [CHR 0x0A]"
proof -
  have "concat (map piece_text (row_pieces lib header strings pln asc has_trans rowCount r))
      = concat (map (\<lambda>c. (if 0 < c then border pln asc else [])
             @ padded_cell lib header strings pln has_trans rowCount c r) [0..<length header])
        @ [CHR 0x0A]"
    by (simp add: row_pieces_def pieces_text_concat border_piece_text)
  then show ?thesis by (simp only: concat_separated)
qed

lemma hline_pieces_text:
  "concat (map piece_text (hline_pieces lib header strings pln asc has_trans rowCount))
     = join (if asc then HOR_LINE_LO @ CROSS_LO @ HOR_LINE_LO
             else HOR_LINE_HI @ CROSS_HI @ HOR_LINE_HI)
         (map (\<lambda>c. concat (replicate (colMaxLen lib header strings pln has_trans rowCount c)
                           (if asc then HOR_LINE_LO else HOR_LINE_HI)))
            [0..<length header])
       @ [CHR 0x0A]"
proof -
  have "concat (map piece_text (hline_pieces lib header strings pln asc has_trans rowCount))
      = concat (map (\<lambda>c. (if 0 < c
              then (if asc then HOR_LINE_LO @ CROSS_LO @ HOR_LINE_LO
                    else HOR_LINE_HI @ CROSS_HI @ HOR_LINE_HI)
              else [])
             @ concat (replicate (colMaxLen lib header strings pln has_trans rowCount c)
                 (if asc then HOR_LINE_LO else HOR_LINE_HI))) [0..<length header])
        @ [CHR 0x0A]"
    unfolding hline_pieces_def
    by (simp only: map_append concat_append pieces_text_concat cross_piece_text
          concat_replicate_HorLine) simp
  then show ?thesis by (simp only: concat_separated)
qed

lemma table_pieces_text:
  "concat (map piece_text (table_pieces lib header strings pln asc has_trans rowCount))
     = concat (map
         (\<lambda>r. join (border pln asc)
                (map (\<lambda>c. padded_cell lib header strings pln has_trans rowCount c r)
                   [0..<length header])
              @ [CHR 0x0A]
              @ (if r = 0 \<and> \<not> pln
                 then join (if asc then HOR_LINE_LO @ CROSS_LO @ HOR_LINE_LO
                            else HOR_LINE_HI @ CROSS_HI @ HOR_LINE_HI)
                        (map (\<lambda>c. concat (replicate
                                      (colMaxLen lib header strings pln has_trans rowCount c)
                                      (if asc then HOR_LINE_LO else HOR_LINE_HI)))
                           [0..<length header])
                      @ [CHR 0x0A]
                 else []))
         [0..<rowCount + 1])"
proof -
  have "(\<lambda>r. concat (map piece_text
            (row_pieces lib header strings pln asc has_trans rowCount r
             @ (if r = 0 \<and> \<not> pln
                then hline_pieces lib header strings pln asc has_trans rowCount else []))))
      = (\<lambda>r. join (border pln asc)
                (map (\<lambda>c. padded_cell lib header strings pln has_trans rowCount c r)
                   [0..<length header])
              @ [CHR 0x0A]
              @ (if r = 0 \<and> \<not> pln
                 then join (if asc then HOR_LINE_LO @ CROSS_LO @ HOR_LINE_LO
                            else HOR_LINE_HI @ CROSS_HI @ HOR_LINE_HI)
                        (map (\<lambda>c. concat (replicate
                                      (colMaxLen lib header strings pln has_trans rowCount c)
                                      (if asc then HOR_LINE_LO else HOR_LINE_HI)))
                           [0..<length header])
                      @ [CHR 0x0A]
                 else []))"
    by (rule ext) (simp add: row_pieces_text hline_pieces_text)
  then show ?thesis
    unfolding table_pieces_def by (simp only: pieces_text_concat)
qed

subsection \<open>Padding\<close>

lemma pad_spec_padding:
  "pad align maxLen (str, len)
     = replicate (fst (spec_padding align (maxLen - len))) (CHR '' '') @ str
       @ replicate (snd (spec_padding align (maxLen - len))) (CHR '' '')"
proof (cases "len < maxLen")
  case True
  then show ?thesis by (cases align) (simp_all add: pad_def Let_def)
next
  case False
  then show ?thesis by (cases align) (simp_all add: pad_def)
qed

lemma spec_padding_sum: "fst (spec_padding align d) + snd (spec_padding align d) = d"
  by (cases align) simp_all

lemma spec_display_width_append:
  "spec_display_width (xs @ ys) = spec_display_width xs + spec_display_width ys"
  by (simp add: spec_display_width_def)

lemma spec_display_width_spaces: "spec_display_width (replicate k (CHR '' '')) = k"
  by (induction k) (simp_all add: spec_display_width_def utf8_continuation_def)

lemma spec_display_width_ascii:
  "\<forall>b \<in> set s. (of_char b :: nat) < 128 \<Longrightarrow> spec_display_width s = length s"
  by (induction s) (simp_all add: spec_display_width_def utf8_continuation_def)

subsection \<open>What is measured\<close>

lemma measure_cell_bytes_column:
  "\<not> m_treatAsUnicode (header ! c) \<Longrightarrow>
   cell_text lib header strings pln has_trans c r
     = with_margin pln (length header) c (origStr header strings c r) \<and>
   cell_width lib header strings pln has_trans c r
     = length (origStr header strings c r) + margin_width pln (length header) c"
  by (simp add: cell_text_def cell_width_def measure_cell_def with_margin_def margin_width_def
        Let_def)

lemma measure_cell_unicode_column:
  "m_treatAsUnicode (header ! c) \<Longrightarrow>
   (let u = u_fromStr lib (c_str (origStr header strings c r));
        u' = (if has_trans then u_transliterate lib u else u)
    in cell_text lib header strings pln has_trans c r
         = with_margin pln (length header) c
             (if has_trans then c_str (u_extract lib u') else origStr header strings c r) \<and>
       cell_width lib header strings pln has_trans c r
         = u_length lib u' + margin_width pln (length header) c)"
  by (simp add: cell_text_def cell_width_def measure_cell_def with_margin_def margin_width_def
        Let_def)

lemma length_with_margin:
  "length (with_margin pln columnCount c s) = length s + margin_width pln columnCount c"
  by (simp add: with_margin_def margin_width_def)

lemma spec_display_width_with_margin:
  "spec_display_width (with_margin pln columnCount c s)
     = spec_display_width s + margin_width pln columnCount c"
  by (simp add: with_margin_def margin_width_def spec_display_width_def utf8_continuation_def)

subsection \<open>A padded cell\<close>

lemma padded_cell_spec_padding:
  "padded_cell lib header strings pln has_trans rowCount c r
     = replicate
         (fst (spec_padding (m_alignment (header ! c))
            (colMaxLen lib header strings pln has_trans rowCount c
             - cell_width lib header strings pln has_trans c r)))
         (CHR '' '')
       @ cell_text lib header strings pln has_trans c r
       @ replicate
           (snd (spec_padding (m_alignment (header ! c))
              (colMaxLen lib header strings pln has_trans rowCount c
               - cell_width lib header strings pln has_trans c r)))
           (CHR '' '')"
proof -
  have "measure_cell lib header strings pln has_trans c r
      = (cell_text lib header strings pln has_trans c r,
         cell_width lib header strings pln has_trans c r)"
    by (simp add: cell_text_def cell_width_def)
  then show ?thesis by (simp only: padded_cell_def pad_spec_padding)
qed

lemma padded_cell_display_width:
  assumes "r \<le> rowCount"
    and "spec_display_width (cell_text lib header strings pln has_trans c r)
           = cell_width lib header strings pln has_trans c r"
  shows "spec_display_width (padded_cell lib header strings pln has_trans rowCount c r)
           = colMaxLen lib header strings pln has_trans rowCount c"
proof -
  let ?w = "colMaxLen lib header strings pln has_trans rowCount c"
  let ?m = "cell_width lib header strings pln has_trans c r"
  let ?al = "m_alignment (header ! c)"
  have le: "?m \<le> ?w" using assms(1) by (rule cell_width_le_colMaxLen)
  have "spec_display_width (padded_cell lib header strings pln has_trans rowCount c r)
      = fst (spec_padding ?al (?w - ?m)) + ?m + snd (spec_padding ?al (?w - ?m))"
    by (simp add: padded_cell_spec_padding spec_display_width_append
          spec_display_width_spaces assms(2))
  also have "\<dots> = ?m + (?w - ?m)"
    using spec_padding_sum [of ?al "?w - ?m"] by simp
  finally show ?thesis using le by simp
qed

lemma padded_cell_length:
  assumes "r \<le> rowCount"
    and "length (cell_text lib header strings pln has_trans c r)
           = cell_width lib header strings pln has_trans c r"
  shows "length (padded_cell lib header strings pln has_trans rowCount c r)
           = colMaxLen lib header strings pln has_trans rowCount c"
proof -
  let ?w = "colMaxLen lib header strings pln has_trans rowCount c"
  let ?m = "cell_width lib header strings pln has_trans c r"
  let ?al = "m_alignment (header ! c)"
  have le: "?m \<le> ?w" using assms(1) by (rule cell_width_le_colMaxLen)
  have "length (padded_cell lib header strings pln has_trans rowCount c r)
      = fst (spec_padding ?al (?w - ?m)) + ?m + snd (spec_padding ?al (?w - ?m))"
    by (simp add: padded_cell_spec_padding assms(2))
  also have "\<dots> = ?m + (?w - ?m)"
    using spec_padding_sum [of ?al "?w - ?m"] by simp
  finally show ?thesis using le by simp
qed

subsection \<open>Alignment\<close>

lemma cell_text_example:
  "spec_display_width (cell_text icu_bytes header3 strings3 False True 1 2)
     = cell_width icu_bytes header3 strings3 False True 1 2"
  by code_simp

lemma header3_length: "length header3 = 3"
  by (simp add: header3_def)

text \<open>
  Claim C8, as the specification states it: the width of a column is the maximum
  display width of its cells and every cell is padded to exactly that width. In a
  column that is not treated as Unicode the renderer counts bytes. Below, the column is
  8 wide; the cell \<open>x86_64\<close> is padded to 8 characters, but the cell holding the one
  character U+00E9 is measured as 2 and padded with 6 spaces, which makes 7.
\<close>

theorem platform_column_not_aligned:
  "renderTable icu_bytes header_platform [''x86_64'', e_acute] True False
     = Some (''Platform'' @ [CHR 0x0A] @ ''x86_64  '' @ [CHR 0x0A]
             @ e_acute @ ''      '' @ [CHR 0x0A]) \<and>
   spec_display_width ''Platform'' = 8 \<and>
   spec_display_width ''x86_64  '' = 8 \<and>
   spec_display_width (e_acute @ ''      '') = 7"
  by code_simp

text \<open>
  Claim C8, amended. A header with at least one column always gives a table. When the
  length of \<open>strings\<close> is \<open>n\<close> times the number of columns and a table comes back:
  the table is the header line, the rule under it unless the table is plain, and \<open>n\<close>
  lines; every one of these lines is one cell for each column, joined by the same
  separator, so all lines have as many separators. The width of a column is the
  maximum, over the header cell and the \<open>n\<close> cells below it, of the width measured with
  the margin, and the rule repeats the line glyph that many times. What is measured is
  the number of bytes of the text in a column that is not treated as Unicode, and the
  length that ICU reports for the text up to its first NUL, transliterated when the
  transliterator exists, in a column treated as Unicode. Every cell is its text, margin
  included, with as many spaces added as the measured width is short of the width of
  the column, after the text, before it, or split with the odd one after it, as the
  alignment says. So a cell has the display width of its column whenever the measured
  width of its text is its display width; that is the case for ASCII text in a column
  not treated as Unicode, where the padded cell also has exactly that many bytes.
\<close>

theorem table_columns_aligned:
  "(header \<noteq> [] \<longrightarrow> renderTable lib header strings pln asc \<noteq> None) \<and>
   (length strings = n * length header \<and> renderTable lib header strings pln asc = Some table \<longrightarrow>
      (let tr = (asc \<and> trans_ok lib);
           cols = length header;
           width = colMaxLen lib header strings pln tr n;
           text = cell_text lib header strings pln tr;
           measured = cell_width lib header strings pln tr;
           cell = padded_cell lib header strings pln tr n;
           cross = (if asc then HOR_LINE_LO @ CROSS_LO @ HOR_LINE_LO
                    else HOR_LINE_HI @ CROSS_HI @ HOR_LINE_HI);
           hor = (if asc then HOR_LINE_LO else HOR_LINE_HI)
       in table =
            concat (map
              (\<lambda>r. join (border pln asc) (map (\<lambda>c. cell c r) [0..<cols]) @ [CHR 0x0A]
                   @ (if r = 0 \<and> \<not> pln
                      then join cross (map (\<lambda>c. concat (replicate (width c) hor)) [0..<cols])
                           @ [CHR 0x0A]
                      else []))
              [0..<n + 1]) \<and>
          (\<forall>c < cols.
             width c = Max (measured c ` {0..n}) \<and>
             (\<forall>r \<le> n.
                cell c r =
                  replicate (fst (spec_padding (m_alignment (header ! c)) (width c - measured c r)))
                    (CHR '' '')
                  @ text c r
                  @ replicate (snd (spec_padding (m_alignment (header ! c)) (width c - measured c r)))
                      (CHR '' '') \<and>
                measured c r \<le> width c \<and>
                (spec_display_width (text c r) = measured c r \<longrightarrow>
                   spec_display_width (cell c r) = width c) \<and>
                (if m_treatAsUnicode (header ! c)
                 then (let u = u_fromStr lib (c_str (origStr header strings c r));
                           u' = (if tr then u_transliterate lib u else u)
                       in text c r =
                            with_margin pln cols c
                              (if tr then c_str (u_extract lib u') else origStr header strings c r) \<and>
                          measured c r = u_length lib u' + margin_width pln cols c)
                 else text c r = with_margin pln cols c (origStr header strings c r) \<and>
                      measured c r = length (origStr header strings c r) + margin_width pln cols c \<and>
                      length (cell c r) = width c \<and>
                      ((\<forall>b \<in> set (origStr header strings c r). (of_char b :: nat) < 128) \<longrightarrow>
                         spec_display_width (cell c r) = width c))))))"
proof (intro conjI impI)
  assume "header \<noteq> []"
  then show "renderTable lib header strings pln asc \<noteq> None"
    by (simp add: renderTable_Some)
next
  assume a: "length strings = n * length header \<and> renderTable lib header strings pln asc = Some table"
  let ?tr = "asc \<and> trans_ok lib"
  from a have len: "length strings = n * length header"
    and rt: "renderTable lib header strings pln asc = Some table"
    by simp_all
  have ne: "header \<noteq> []" using rt by (auto simp: renderTable_None)
  have d: "length strings div length header = n" using len ne by simp
  have "renderTable lib header strings pln asc =
      Some (concat (map piece_text (table_pieces lib header strings pln asc ?tr n)))"
    using renderTable_Some [OF ne, of lib strings pln asc] by (simp only: d)
  with rt have t: "table = concat (map piece_text (table_pieces lib header strings pln asc ?tr n))"
    by simp
  have cells: "cell_width lib header strings pln ?tr c r
        \<le> colMaxLen lib header strings pln ?tr n c \<and>
      (spec_display_width (cell_text lib header strings pln ?tr c r)
         = cell_width lib header strings pln ?tr c r \<longrightarrow>
       spec_display_width (padded_cell lib header strings pln ?tr n c r)
         = colMaxLen lib header strings pln ?tr n c) \<and>
      (if m_treatAsUnicode (header ! c)
       then (let u = u_fromStr lib (c_str (origStr header strings c r));
                 u' = (if ?tr then u_transliterate lib u else u)
             in cell_text lib header strings pln ?tr c r =
                  with_margin pln (length header) c
                    (if ?tr then c_str (u_extract lib u') else origStr header strings c r) \<and>
                cell_width lib header strings pln ?tr c r
                  = u_length lib u' + margin_width pln (length header) c)
       else cell_text lib header strings pln ?tr c r
              = with_margin pln (length header) c (origStr header strings c r) \<and>
            cell_width lib header strings pln ?tr c r
              = length (origStr header strings c r) + margin_width pln (length header) c \<and>
            length (padded_cell lib header strings pln ?tr n c r)
              = colMaxLen lib header strings pln ?tr n c \<and>
            ((\<forall>b \<in> set (origStr header strings c r). (of_char b :: nat) < 128) \<longrightarrow>
               spec_display_width (padded_cell lib header strings pln ?tr n c r)
                 = colMaxLen lib header strings pln ?tr n c))"
    if r: "r \<le> n" for c r
  proof (intro conjI)
    show "cell_width lib header strings pln ?tr c r \<le> colMaxLen lib header strings pln ?tr n c"
      using r by (rule cell_width_le_colMaxLen)
    show "spec_display_width (cell_text lib header strings pln ?tr c r)
         = cell_width lib header strings pln ?tr c r \<longrightarrow>
       spec_display_width (padded_cell lib header strings pln ?tr n c r)
         = colMaxLen lib header strings pln ?tr n c"
      using padded_cell_display_width [OF r] by blast
    show "if m_treatAsUnicode (header ! c)
       then (let u = u_fromStr lib (c_str (origStr header strings c r));
                 u' = (if ?tr then u_transliterate lib u else u)
             in cell_text lib header strings pln ?tr c r =
                  with_margin pln (length header) c
                    (if ?tr then c_str (u_extract lib u') else origStr header strings c r) \<and>
                cell_width lib header strings pln ?tr c r
                  = u_length lib u' + margin_width pln (length header) c)
       else cell_text lib header strings pln ?tr c r
              = with_margin pln (length header) c (origStr header strings c r) \<and>
            cell_width lib header strings pln ?tr c r
              = length (origStr header strings c r) + margin_width pln (length header) c \<and>
            length (padded_cell lib header strings pln ?tr n c r)
              = colMaxLen lib header strings pln ?tr n c \<and>
            ((\<forall>b \<in> set (origStr header strings c r). (of_char b :: nat) < 128) \<longrightarrow>
               spec_display_width (padded_cell lib header strings pln ?tr n c r)
                 = colMaxLen lib header strings pln ?tr n c)"
    proof (cases "m_treatAsUnicode (header ! c)")
      case True
      then show ?thesis
        using measure_cell_unicode_column [OF True, of lib strings r ?tr pln] by simp
    next
      case False
      note m = measure_cell_bytes_column [OF False, of lib strings pln ?tr r]
      have l: "length (cell_text lib header strings pln ?tr c r)
          = cell_width lib header strings pln ?tr c r"
        using m by (simp add: length_with_margin)
      have disp: "spec_display_width (padded_cell lib header strings pln ?tr n c r)
          = colMaxLen lib header strings pln ?tr n c"
        if ascii: "\<forall>b \<in> set (origStr header strings c r). (of_char b :: nat) < 128"
      proof -
        have "spec_display_width (cell_text lib header strings pln ?tr c r)
            = cell_width lib header strings pln ?tr c r"
          using m spec_display_width_ascii [OF ascii]
          by (simp add: spec_display_width_with_margin)
        then show ?thesis by (rule padded_cell_display_width [OF r])
      qed
      show ?thesis
        using False m padded_cell_length [OF r l] disp by simp
    qed
  qed
  show "let tr = asc \<and> trans_ok lib; cols = length header;
            width = colMaxLen lib header strings pln tr n;
            text = cell_text lib header strings pln tr;
            measured = cell_width lib header strings pln tr;
            cell = padded_cell lib header strings pln tr n;
            cross = (if asc then HOR_LINE_LO @ CROSS_LO @ HOR_LINE_LO
                     else HOR_LINE_HI @ CROSS_HI @ HOR_LINE_HI);
            hor = (if asc then HOR_LINE_LO else HOR_LINE_HI)
       in table =
            concat (map
              (\<lambda>r. join (border pln asc) (map (\<lambda>c. cell c r) [0..<cols]) @ [CHR 0x0A]
                   @ (if r = 0 \<and> \<not> pln
                      then join cross (map (\<lambda>c. concat (replicate (width c) hor)) [0..<cols])
                           @ [CHR 0x0A]
                      else []))
              [0..<n + 1]) \<and>
          (\<forall>c < cols.
             width c = Max (measured c ` {0..n}) \<and>
             (\<forall>r \<le> n.
                cell c r =
                  replicate (fst (spec_padding (m_alignment (header ! c)) (width c - measured c r)))
                    (CHR '' '')
                  @ text c r
                  @ replicate (snd (spec_padding (m_alignment (header ! c)) (width c - measured c r)))
                      (CHR '' '') \<and>
                measured c r \<le> width c \<and>
                (spec_display_width (text c r) = measured c r \<longrightarrow>
                   spec_display_width (cell c r) = width c) \<and>
                (if m_treatAsUnicode (header ! c)
                 then (let u = u_fromStr lib (c_str (origStr header strings c r));
                           u' = (if tr then u_transliterate lib u else u)
                       in text c r =
                            with_margin pln cols c
                              (if tr then c_str (u_extract lib u') else origStr header strings c r) \<and>
                          measured c r = u_length lib u' + margin_width pln cols c)
                 else text c r = with_margin pln cols c (origStr header strings c r) \<and>
                      measured c r = length (origStr header strings c r) + margin_width pln cols c \<and>
                      length (cell c r) = width c \<and>
                      ((\<forall>b \<in> set (origStr header strings c r). (of_char b :: nat) < 128) \<longrightarrow>
                         spec_display_width (cell c r) = width c))))"
    unfolding Let_def
  proof (intro conjI allI impI)
    show "table =
      concat (map
        (\<lambda>r. join (border pln asc)
               (map (\<lambda>c. padded_cell lib header strings pln ?tr n c r) [0..<length header])
             @ [CHR 0x0A]
             @ (if r = 0 \<and> \<not> pln
                then join (if asc then HOR_LINE_LO @ CROSS_LO @ HOR_LINE_LO
                           else HOR_LINE_HI @ CROSS_HI @ HOR_LINE_HI)
                       (map (\<lambda>c. concat (replicate (colMaxLen lib header strings pln ?tr n c)
                                          (if asc then HOR_LINE_LO else HOR_LINE_HI)))
                          [0..<length header])
                     @ [CHR 0x0A]
                else []))
        [0..<n + 1])"
      using t by (simp only: table_pieces_text)
  next
    fix c
    show "colMaxLen lib header strings pln ?tr n c
        = Max (cell_width lib header strings pln ?tr c ` {0..n})"
      by (rule colMaxLen_is_Max)
  next
    fix c r
    show "padded_cell lib header strings pln ?tr n c r =
        replicate (fst (spec_padding (m_alignment (header ! c))
            (colMaxLen lib header strings pln ?tr n c - cell_width lib header strings pln ?tr c r)))
          (CHR '' '')
        @ cell_text lib header strings pln ?tr c r
        @ replicate (snd (spec_padding (m_alignment (header ! c))
            (colMaxLen lib header strings pln ?tr n c - cell_width lib header strings pln ?tr c r)))
            (CHR '' '')"
      by (rule padded_cell_spec_padding)
  next
    fix c r
    assume "r \<le> n"
    then show "cell_width lib header strings pln ?tr c r \<le> colMaxLen lib header strings pln ?tr n c"
      using cells by blast
  next
    fix c r
    assume "r \<le> n"
      and "spec_display_width (cell_text lib header strings pln ?tr c r)
         = cell_width lib header strings pln ?tr c r"
    then show "spec_display_width (padded_cell lib header strings pln ?tr n c r)
         = colMaxLen lib header strings pln ?tr n c"
      using cells by blast
  next
    fix c r
    assume r: "r \<le> n"
    show "if m_treatAsUnicode (header ! c)
       then (\<lambda>u. (\<lambda>u'. cell_text lib header strings pln ?tr c r =
                  with_margin pln (length header) c
                    (if ?tr then c_str (u_extract lib u') else origStr header strings c r) \<and>
                cell_width lib header strings pln ?tr c r
                  = u_length lib u' + margin_width pln (length header) c)
               (if ?tr then u_transliterate lib u else u))
             (u_fromStr lib (c_str (origStr header strings c r)))
       else cell_text lib header strings pln ?tr c r
              = with_margin pln (length header) c (origStr header strings c r) \<and>
            cell_width lib header strings pln ?tr c r
              = length (origStr header strings c r) + margin_width pln (length header) c \<and>
            length (padded_cell lib header strings pln ?tr n c r)
              = colMaxLen lib header strings pln ?tr n c \<and>
            ((\<forall>b \<in> set (origStr header strings c r). (of_char b :: nat) < 128) \<longrightarrow>
               spec_display_width (padded_cell lib header strings pln ?tr n c r)
                 = colMaxLen lib header strings pln ?tr n c)"
      using conjunct2 [OF conjunct2 [OF cells [OF r, of c]]] unfolding Let_def .
  qed
qed

theorem table_columns_aligned_witness:
  "length strings3 = 2 * length header3 \<and>
   renderTable icu_bytes header3 strings3 False True =
     Some ('' Node # | Up  | IP        '' @ [CHR 0x0A]
           @ ''--------+-----+-----------'' @ [CHR 0x0A]
           @ ''      7 | yes | 10.0.0.1  '' @ [CHR 0x0A]
           @ ''     12 |  X  | 10.0.0.22 '' @ [CHR 0x0A]) \<and>
   Max (cell_width icu_bytes header3 strings3 False True 1 ` {0..2}) = 3 \<and>
   spec_display_width (padded_cell icu_bytes header3 strings3 False True 2 1 2) = 3"
proof -
  have t: "(True \<and> trans_ok icu_bytes) = True" by (simp add: icu_bytes_def)
  note w = conjunct2 [OF table_columns_aligned
    [where lib = icu_bytes and header = header3 and strings = strings3 and pln = False
       and asc = True and n = 2
       and table = "'' Node # | Up  | IP        '' @ [CHR 0x0A]
           @ ''--------+-----+-----------'' @ [CHR 0x0A]
           @ ''      7 | yes | 10.0.0.1  '' @ [CHR 0x0A]
           @ ''     12 |  X  | 10.0.0.22 '' @ [CHR 0x0A]",
     unfolded Let_def t]]
  note b = mp [OF w conjI [OF strings3_length renderTable_example]]
  have "1 < length header3" by (simp add: header3_length)
  note c1 = mp [OF spec [OF conjunct2 [OF b], of 1] this]
  have m: "Max (cell_width icu_bytes header3 strings3 False True 1 ` {0..2}) = 3"
    using conjunct1 [OF c1] colMaxLen_example by simp
  have "(2 :: nat) \<le> 2" by simp
  note r2 = mp [OF spec [OF conjunct2 [OF c1], of 2] this]
  have "spec_display_width (padded_cell icu_bytes header3 strings3 False True 2 1 2)
      = colMaxLen icu_bytes header3 strings3 False True 2 1"
    using conjunct1 [OF conjunct2 [OF conjunct2 [OF r2]]] cell_text_example by simp
  then have "spec_display_width (padded_cell icu_bytes header3 strings3 False True 2 1 2) = 3"
    using colMaxLen_example by (rule trans)
  with m show ?thesis using strings3_length renderTable_example by (simp only: simp_thms)
qed

end
